theory Spec2Isabelle
  imports Complex_Main "HOL-Library.AList" "HOL-Library.Char_ord" "HOL-Library.List_Lexorder"
begin

section \<open>Numbers and geometry helpers\<close>

text \<open>
  The engine is TypeScript; every \<^verbatim>\<open>number\<close> is modelled as a \<^typ>\<open>real\<close>, so the
  development speaks about the arithmetic the code writes down, not about rounding,
  overflow to infinity or NaN. Aircraft ids are strings.
\<close>

definition toRad :: "real \<Rightarrow> real" where
  "toRad v = (v * pi) / 180"

definition toDeg :: "real \<Rightarrow> real" where
  "toDeg v = (v * 180) / pi"

text \<open>The remainder operator \<^verbatim>\<open>%\<close>: the quotient is truncated towards zero.\<close>

definition truncq :: "real \<Rightarrow> int" where
  "truncq z = (if 0 \<le> z then \<lfloor>z\<rfloor> else \<lceil>z\<rceil>)"

definition jsMod :: "real \<Rightarrow> real \<Rightarrow> real" where
  "jsMod x y = x - y * of_int (truncq (x / y))"

text \<open>\<^verbatim>\<open>Math.atan2(y, x)\<close>, by quadrant.\<close>

definition atan2 :: "real \<Rightarrow> real \<Rightarrow> real" where
  "atan2 y x =
     (if 0 < x then arctan (y / x)
      else if x < 0 then (if 0 \<le> y then arctan (y / x) + pi else arctan (y / x) - pi)
      else if 0 < y then pi / 2
      else if y < 0 then - (pi / 2)
      else 0)"

definition clamp01 :: "real \<Rightarrow> real" where
  "clamp01 x = max 0 (min 1 x)"

definition normDeg :: "real \<Rightarrow> real" where
  "normDeg d = (let x = jsMod (jsMod d 360 + 360) 360 in if x > 180 then x - 360 else x)"

definition bearingDeg :: "real \<Rightarrow> real \<Rightarrow> real \<Rightarrow> real \<Rightarrow> real" where
  "bearingDeg lat1 lon1 lat2 lon2 =
     (let p1 = toRad lat1; p2 = toRad lat2; dl = toRad (lon2 - lon1);
          y = sin dl * cos p2;
          x = cos p1 * sin p2 - sin p1 * cos p2 * cos dl;
          th = atan2 y x
      in jsMod (toDeg th + 360) 360)"

definition headingSpreadDeg :: "real list \<Rightarrow> real" where
  "headingSpreadDeg headings =
     (if length headings < 2 then 0
      else let sx = foldl (\<lambda>s h. s + cos (toRad h)) 0 headings;
               sy = foldl (\<lambda>s h. s + sin (toRad h)) 0 headings;
               R = sqrt (sx * sx + sy * sy) / real (length headings)
           in (1 - R) * 180)"

text \<open>The term under the square roots of the haversine formula.\<close>

definition haversineA :: "real \<Rightarrow> real \<Rightarrow> real \<Rightarrow> real \<Rightarrow> real" where
  "haversineA lat1 lon1 lat2 lon2 =
     (let p1 = toRad lat1; p2 = toRad lat2;
          dp = toRad (lat2 - lat1); dl = toRad (lon2 - lon1)
      in (sin (dp / 2))\<^sup>2 + cos p1 * cos p2 * (sin (dl / 2))\<^sup>2)"

definition haversineNm :: "real \<Rightarrow> real \<Rightarrow> real \<Rightarrow> real \<Rightarrow> real" where
  "haversineNm lat1 lon1 lat2 lon2 =
     (let R = 6371000;
          a = haversineA lat1 lon1 lat2 lon2;
          c = 2 * atan2 (sqrt a) (sqrt (1 - a))
      in (R * c) / 1852)"


section \<open>Trail points and the instability score\<close>

record TrailPoint =
  tp_ts :: real
  tp_lat :: real
  tp_lon :: real
  tp_alt_ft :: "real option"
  tp_track_deg :: "real option"

definition trailHeadings :: "TrailPoint list \<Rightarrow> real list" where
  "trailHeadings points =
     map (\<lambda>i. bearingDeg (tp_lat (points ! (i - 1))) (tp_lon (points ! (i - 1)))
                          (tp_lat (points ! i)) (tp_lon (points ! i)))
         [1 ..< length points]"

definition trailTurnRates :: "TrailPoint list \<Rightarrow> real list \<Rightarrow> real list" where
  "trailTurnRates points headings =
     fold (\<lambda>i rates.
             let dh = normDeg (headings ! i - headings ! (i - 1));
                 dt = (tp_ts (points ! (i + 1)) - tp_ts (points ! i)) / 1000
             in if dt > 0 then rates @ [\<bar>dh\<bar> / dt] else rates)
          [1 ..< length headings] []"

definition avgTurnRate :: "real list \<Rightarrow> real" where
  "avgTurnRate turnRates =
     (if turnRates \<noteq> [] then foldl (+) 0 turnRates / real (length turnRates) else 0)"

definition computeInstability :: "TrailPoint list \<Rightarrow> real" where
  "computeInstability points =
     (if length points < 3 then 0
      else let headings = trailHeadings points;
               turnRates = trailTurnRates points headings;
               spread = headingSpreadDeg headings;
               avgTurn = avgTurnRate turnRates;
               spreadTerm = clamp01 (spread / 25);
               turnTerm = clamp01 (avgTurn / 1.5)
           in clamp01 (max spreadTerm turnTerm))"

section \<open>Data model\<close>

text \<open>
  The records follow the type declarations of the API module. Fields that the code reads
  through \<^verbatim>\<open>??\<close> are optional here even where the declared type is a plain
  number, so that the default the code writes is part of the model. The display strings of
  an alert (title, details) are left out; its id keeps the parts the template string is
  built from.
\<close>

record AircraftState =
  ac_id :: string
  ac_callsign :: "string option"
  ac_lat :: real
  ac_lon :: real
  ac_alt_ft :: real
  ac_gs_kt :: real
  ac_track_deg :: "real option"
  ac_vr_fpm :: "real option"

record ProjectedPoint =
  pp_lat :: real
  pp_lon :: real
  pp_alt_ft :: "real option"
  pp_t_s :: "real option"

record ProjectedTrack =
  trk_id :: string
  trk_points :: "ProjectedPoint list"

record Trail =
  tr_id :: string
  tr_callsign :: "string option"
  tr_points :: "TrailPoint list"

record Conflict =
  a_id :: string
  b_id :: string
  cpa_lat :: real
  cpa_lon :: real
  first_breach_s :: real
  min_h_nm :: real
  min_v_ft :: real

datatype AlertSeverity = info | caution | warning

datatype AlertType = separation | weather | vertical | wake | congestion

datatype AlertId =
    SepId string int
  | WxId string int
  | LocalVerticalId string int
  | LocalCongestionId int
  | LocalWakeId string string int

record Alert =
  al_id :: AlertId
  al_type :: AlertType
  al_severity :: AlertSeverity
  al_involvedAircraftIds :: "string list"
  al_lat :: real
  al_lon :: real
  al_time_s :: int
  al_conflict :: "Conflict option"

text \<open>Montreal, the reference point of the congestion and weather filters.\<close>

definition DEFAULT_CENTER :: "real \<times> real" where
  "DEFAULT_CENTER = (45.5019, - 73.5674)"

text \<open>The time bucket: the ISO string handed on is the rendering of this rounded instant.\<close>

definition roundToMinutes :: "real \<Rightarrow> real \<Rightarrow> real" where
  "roundToMinutes tsMs minutes = (let m = minutes * 60 * 1000 in of_int \<lfloor>tsMs / m\<rfloor> * m)"

section \<open>Filtering\<close>

fun severityRank :: "AlertSeverity \<Rightarrow> nat" where
  "severityRank info = 0"
| "severityRank caution = 1"
| "severityRank warning = 2"

definition filterAlerts :: "Alert list \<Rightarrow> (AlertType \<Rightarrow> bool) \<Rightarrow> AlertSeverity \<Rightarrow> Alert list" where
  "filterAlerts alerts enabled minSev =
     (let mn = severityRank minSev
      in filter (\<lambda>a. enabled (al_type a) \<and> severityRank (al_severity a) \<ge> mn) alerts)"

section \<open>Separation detection from projected tracks\<close>

text \<open>Reading an array at an index: out of range gives \<^verbatim>\<open>undefined\<close>.\<close>

definition nthOpt :: "'a list \<Rightarrow> nat \<Rightarrow> 'a option" where
  "nthOpt xs i = (if i < length xs then Some (xs ! i) else None)"

text \<open>\<^verbatim>\<open>p?.t_s ?? 0\<close> and \<^verbatim>\<open>p.alt_ft ?? 0\<close>.\<close>

definition tsOr0 :: "ProjectedPoint option \<Rightarrow> real" where
  "tsOr0 p = (case p of None \<Rightarrow> 0 | Some q \<Rightarrow> (case pp_t_s q of None \<Rightarrow> 0 | Some t \<Rightarrow> t))"

definition altOr0 :: "ProjectedPoint \<Rightarrow> real" where
  "altOr0 p = (case pp_alt_ft p of None \<Rightarrow> 0 | Some x \<Rightarrow> x)"

definition stepOffset :: "ProjectedTrack \<Rightarrow> real" where
  "stepOffset t = tsOr0 (nthOpt (trk_points t) 1) - tsOr0 (nthOpt (trk_points t) 0)"

definition stepSeconds :: "ProjectedTrack \<Rightarrow> real" where
  "stepSeconds t = (let dt = stepOffset t in if dt > 0 then dt else 60)"

text \<open>Horizontal and vertical separation of two tracks at sample \<open>k\<close>.\<close>

definition hSep :: "ProjectedTrack \<Rightarrow> ProjectedTrack \<Rightarrow> nat \<Rightarrow> real" where
  "hSep a b k =
     (let pa = trk_points a ! k; pb = trk_points b ! k
      in haversineNm (pp_lat pa) (pp_lon pa) (pp_lat pb) (pp_lon pb))"

definition vSep :: "ProjectedTrack \<Rightarrow> ProjectedTrack \<Rightarrow> nat \<Rightarrow> real" where
  "vSep a b k = \<bar>altOr0 (trk_points a ! k) - altOr0 (trk_points b ! k)\<bar>"

text \<open>
  The variables of the walk over one pair. \<open>minH\<close> and \<open>minV\<close> start at positive
  infinity, written \<open>None\<close>.
\<close>

record Walk =
  minH :: "real option"
  minV :: "real option"
  minIdx :: nat
  firstBreachIdx :: "nat option"

definition walkInit :: Walk where
  "walkInit = \<lparr>minH = None, minV = None, minIdx = 0, firstBreachIdx = None\<rparr>"

definition belowMin :: "real \<Rightarrow> real option \<Rightarrow> bool" where
  "belowMin h m = (case m of None \<Rightarrow> True | Some x \<Rightarrow> h < x)"

definition walkStep :: "ProjectedTrack \<Rightarrow> ProjectedTrack \<Rightarrow> real \<Rightarrow> real \<Rightarrow> nat \<Rightarrow> Walk \<Rightarrow> Walk" where
  "walkStep a b H_NM V_FT k w =
     (let h = hSep a b k;
          v = vSep a b k;
          w1 = (if belowMin h (minH w) then w\<lparr>minH := Some h, minV := Some v, minIdx := k\<rparr> else w)
      in if firstBreachIdx w1 = None \<and> h < H_NM \<and> v < V_FT
         then w1\<lparr>firstBreachIdx := Some k\<rparr> else w1)"

definition walkPair :: "ProjectedTrack \<Rightarrow> ProjectedTrack \<Rightarrow> real \<Rightarrow> real \<Rightarrow> nat \<Rightarrow> Walk" where
  "walkPair a b H_NM V_FT n = fold (walkStep a b H_NM V_FT) [0 ..< n] walkInit"

text \<open>
  The body of the two nested loops for one pair: nothing for fewer than two common
  samples or when no breach index was recorded, one conflict otherwise. A recorded breach
  means that the walk visited a sample, so the minimum is finite by then; the last case
  cannot occur.
\<close>

definition pairConflict :: "ProjectedTrack \<Rightarrow> ProjectedTrack \<Rightarrow> real \<Rightarrow> real \<Rightarrow> Conflict list" where
  "pairConflict a b H_NM V_FT =
     (let n = min (length (trk_points a)) (length (trk_points b))
      in if n < 2 then []
         else let dt = min (stepSeconds a) (stepSeconds b);
                  w = walkPair a b H_NM V_FT n
              in case (firstBreachIdx w, minH w, minV w) of
                   (None, _, _) \<Rightarrow> []
                 | (Some fb, Some mh, Some mv) \<Rightarrow>
                     [\<lparr>a_id = trk_id a, b_id = trk_id b,
                       cpa_lat = (pp_lat (trk_points a ! minIdx w) + pp_lat (trk_points b ! minIdx w)) / 2,
                       cpa_lon = (pp_lon (trk_points a ! minIdx w) + pp_lon (trk_points b ! minIdx w)) / 2,
                       first_breach_s = real fb * dt,
                       min_h_nm = mh,
                       min_v_ft = mv\<rparr>]
                 | (Some fb, _, _) \<Rightarrow> [])"

text \<open>
  \<^verbatim>\<open>new Map(tracks.map((t) => [t.id, t]))\<close>: a key keeps the position of its first
  entry and the value of its last one.
\<close>

definition newMapById :: "ProjectedTrack list \<Rightarrow> (string \<times> ProjectedTrack) list" where
  "newMapById tracks = fold (\<lambda>t m. AList.update (trk_id t) t m) tracks []"

text \<open>
  The loops over \<open>i\<close> and \<open>j > i\<close>. Every id comes from the keys of the map, so both
  lookups succeed.
\<close>

fun pairLoopJ :: "(string \<times> ProjectedTrack) list \<Rightarrow> real \<Rightarrow> real \<Rightarrow> string \<Rightarrow> string list \<Rightarrow> Conflict list" where
  "pairLoopJ byId H_NM V_FT i [] = []"
| "pairLoopJ byId H_NM V_FT i (j # js) =
     (case (map_of byId i, map_of byId j) of
        (Some a, Some b) \<Rightarrow> pairConflict a b H_NM V_FT
      | _ \<Rightarrow> [])
     @ pairLoopJ byId H_NM V_FT i js"

fun pairLoopI :: "(string \<times> ProjectedTrack) list \<Rightarrow> real \<Rightarrow> real \<Rightarrow> string list \<Rightarrow> Conflict list" where
  "pairLoopI byId H_NM V_FT [] = []"
| "pairLoopI byId H_NM V_FT (i # rest) =
     pairLoopJ byId H_NM V_FT i rest @ pairLoopI byId H_NM V_FT rest"

definition detectSeparationConflicts :: "ProjectedTrack list \<Rightarrow> real \<Rightarrow> real \<Rightarrow> Conflict list" where
  "detectSeparationConflicts tracks H_NM V_FT =
     (let byId = newMapById tracks;
          ids = map fst byId;
          conflicts = pairLoopI byId H_NM V_FT ids
      in sort_key first_breach_s conflicts)"

text \<open>The breach condition at one sample, as the walk tests it.\<close>

definition breachAt :: "ProjectedTrack \<Rightarrow> ProjectedTrack \<Rightarrow> real \<Rightarrow> real \<Rightarrow> nat \<Rightarrow> bool" where
  "breachAt a b H_NM V_FT k = (hSep a b k < H_NM \<and> vSep a b k < V_FT)"

section \<open>Local alert heuristics\<close>

definition verticalAlert :: "int \<Rightarrow> AircraftState \<Rightarrow> Alert list" where
  "verticalAlert time_s a =
     (let vr = (case ac_vr_fpm a of None \<Rightarrow> 0 | Some x \<Rightarrow> x);
          absVr = \<bar>vr\<bar>
      in if absVr < 1500 then []
         else [\<lparr>al_id = LocalVerticalId (ac_id a) time_s,
                al_type = vertical,
                al_severity = (if absVr \<ge> 2500 then warning else caution),
                al_involvedAircraftIds = [ac_id a],
                al_lat = ac_lat a, al_lon = ac_lon a,
                al_time_s = time_s, al_conflict = None\<rparr>])"

definition withinCenter :: "real \<Rightarrow> AircraftState \<Rightarrow> bool" where
  "withinCenter r a = (haversineNm (fst DEFAULT_CENTER) (snd DEFAULT_CENTER) (ac_lat a) (ac_lon a) \<le> r)"

definition congestionAlert :: "int \<Rightarrow> AircraftState list \<Rightarrow> Alert list" where
  "congestionAlert time_s ac =
     (let inRange = filter (withinCenter 20) ac
      in if length inRange \<ge> 10
         then [\<lparr>al_id = LocalCongestionId time_s,
                al_type = congestion,
                al_severity = (if length inRange \<ge> 15 then warning else caution),
                al_involvedAircraftIds = map ac_id inRange,
                al_lat = fst DEFAULT_CENTER, al_lon = snd DEFAULT_CENTER,
                al_time_s = time_s, al_conflict = None\<rparr>]
         else [])"

text \<open>The three quantities the wake test looks at, for one pair.\<close>

definition wakeDist :: "AircraftState \<Rightarrow> AircraftState \<Rightarrow> real" where
  "wakeDist A B = haversineNm (ac_lat A) (ac_lon A) (ac_lat B) (ac_lon B)"

definition wakeDv :: "AircraftState \<Rightarrow> AircraftState \<Rightarrow> real" where
  "wakeDv A B = \<bar>ac_alt_ft A - ac_alt_ft B\<bar>"

definition trackOr0 :: "AircraftState \<Rightarrow> real" where
  "trackOr0 A = (case ac_track_deg A of None \<Rightarrow> 0 | Some x \<Rightarrow> x)"

definition wakeDh :: "AircraftState \<Rightarrow> AircraftState \<Rightarrow> real" where
  "wakeDh A B = \<bar>normDeg (trackOr0 A - trackOr0 B)\<bar>"

definition wakePair :: "int \<Rightarrow> AircraftState \<Rightarrow> AircraftState \<Rightarrow> Alert list" where
  "wakePair time_s A B =
     (let d = wakeDist A B; dv = wakeDv A B
      in if d > 2.0 \<or> dv > 700 then []
         else let dh = wakeDh A B
              in if dh > 25 then []
                 else [\<lparr>al_id = LocalWakeId (ac_id A) (ac_id B) time_s,
                        al_type = wake,
                        al_severity = (if d < 1.0 \<and> dv < 400 then warning else caution),
                        al_involvedAircraftIds = [ac_id A, ac_id B],
                        al_lat = (ac_lat A + ac_lat B) / 2,
                        al_lon = (ac_lon A + ac_lon B) / 2,
                        al_time_s = time_s, al_conflict = None\<rparr>])"

fun wakeLoopJ :: "int \<Rightarrow> AircraftState \<Rightarrow> AircraftState list \<Rightarrow> Alert list" where
  "wakeLoopJ time_s A [] = []"
| "wakeLoopJ time_s A (B # rest) = wakePair time_s A B @ wakeLoopJ time_s A rest"

fun wakeLoopI :: "int \<Rightarrow> AircraftState list \<Rightarrow> Alert list" where
  "wakeLoopI time_s [] = []"
| "wakeLoopI time_s (A # rest) = wakeLoopJ time_s A rest @ wakeLoopI time_s rest"

definition buildLocalAlerts :: "AircraftState list \<Rightarrow> real \<Rightarrow> Alert list" where
  "buildLocalAlerts ac nowMs =
     (let time_s = \<lfloor>nowMs / 1000\<rfloor>
      in concat (map (verticalAlert time_s) ac) @ congestionAlert time_s ac @ wakeLoopI time_s ac)"

section \<open>Conflict keys\<close>

text \<open>
  The key of a conflict is built from its two ids in string order, smaller first. Strings
  are compared character by character, as the code compares them.
\<close>

definition conflictKey :: "Conflict \<Rightarrow> string" where
  "conflictKey c =
     (let a = a_id c; b = b_id c in if a < b then a @ ''|'' @ b else b @ ''|'' @ a)"

definition sameConflict :: "Conflict \<Rightarrow> Conflict \<Rightarrow> bool" where
  "sameConflict a b = (conflictKey a = conflictKey b)"

section \<open>Weather sampling\<close>

text \<open>
  The radar lookup is an external service. It is a parameter: a function from latitude,
  longitude and time bucket to an optional intensity, \<open>None\<close> standing for every failure
  the lookup swallows. The loop returns the alerts together with the list of lookups it
  made, in order.
\<close>

type_synonym sampler = "real \<Rightarrow> real \<Rightarrow> real \<Rightarrow> real option"

definition weatherAlert :: "int \<Rightarrow> AircraftState \<Rightarrow> real option \<Rightarrow> Alert list" where
  "weatherAlert time_s a r =
     (case r of
        None \<Rightarrow> []
      | Some v \<Rightarrow>
          if v \<le> 0 then []
          else [\<lparr>al_id = WxId (ac_id a) time_s,
                 al_type = weather,
                 al_severity = (if v \<ge> 30 then warning else if v \<ge> 15 then caution else info),
                 al_involvedAircraftIds = [ac_id a],
                 al_lat = ac_lat a, al_lon = ac_lon a,
                 al_time_s = time_s, al_conflict = None\<rparr>])"

fun weatherLoop :: "sampler \<Rightarrow> real \<Rightarrow> int \<Rightarrow> AircraftState list \<Rightarrow> Alert list \<times> (real \<times> real \<times> real) list" where
  "weatherLoop geometRadarValue timeISO time_s [] = ([], [])"
| "weatherLoop geometRadarValue timeISO time_s (a # rest) =
     (let v = geometRadarValue (ac_lat a) (ac_lon a) timeISO;
          (out, asked) = weatherLoop geometRadarValue timeISO time_s rest
      in (weatherAlert time_s a v @ out, (ac_lat a, ac_lon a, timeISO) # asked))"

definition weatherCandidates :: "AircraftState list \<Rightarrow> AircraftState list" where
  "weatherCandidates ac = take 30 (filter (withinCenter 120) ac)"

definition buildWeatherAlerts ::
    "sampler \<Rightarrow> AircraftState list \<Rightarrow> real \<Rightarrow> real option \<Rightarrow> Alert list \<times> (real \<times> real \<times> real) list" where
  "buildWeatherAlerts geometRadarValue ac timeMs timeISO =
     (case timeISO of
        None \<Rightarrow> ([], [])
      | Some t \<Rightarrow> weatherLoop geometRadarValue t \<lfloor>timeMs / 1000\<rfloor> (weatherCandidates ac))"

section \<open>Trail history\<close>

text \<open>
  The history is a \<^verbatim>\<open>Map\<close> from aircraft id to an entry; it is an association list
  here, \<open>AList.update\<close> being \<^verbatim>\<open>map.set\<close>.
\<close>

record HistEntry =
  he_callsign :: "string option"
  he_points :: "TrailPoint list"

type_synonym history = "(string \<times> HistEntry) list"

definition TRAIL_WINDOW_MS :: real where
  "TRAIL_WINDOW_MS = 5 * 60 * 1000"

text \<open>The \<^verbatim>\<open>while\<close> loop that shifts points off the front.\<close>

fun evictFront :: "real \<Rightarrow> TrailPoint list \<Rightarrow> TrailPoint list" where
  "evictFront cutoff [] = []"
| "evictFront cutoff (p # ps) = (if tp_ts p < cutoff then evictFront cutoff ps else p # ps)"

definition newTrailPoint :: "real \<Rightarrow> AircraftState \<Rightarrow> TrailPoint" where
  "newTrailPoint now a =
     \<lparr>tp_ts = now, tp_lat = ac_lat a, tp_lon = ac_lon a,
      tp_alt_ft = Some (ac_alt_ft a), tp_track_deg = ac_track_deg a\<rparr>"

definition historyStep :: "real \<Rightarrow> AircraftState \<Rightarrow> history \<Rightarrow> history" where
  "historyStep now a m =
     (let entry = (case map_of m (ac_id a) of
                     None \<Rightarrow> \<lparr>he_callsign = ac_callsign a, he_points = []\<rparr>
                   | Some e \<Rightarrow> e);
          callsign = (case ac_callsign a of Some c \<Rightarrow> Some c | None \<Rightarrow> he_callsign entry);
          pushed = he_points entry @ [newTrailPoint now a];
          cutoff = now - TRAIL_WINDOW_MS
      in AList.update (ac_id a) \<lparr>he_callsign = callsign, he_points = evictFront cutoff pushed\<rparr> m)"

definition updateHistory :: "real \<Rightarrow> AircraftState list \<Rightarrow> history \<Rightarrow> history" where
  "updateHistory now ac m = fold (historyStep now) ac m"

definition outTrail :: "history \<Rightarrow> AircraftState \<Rightarrow> Trail" where
  "outTrail m a =
     (case map_of m (ac_id a) of
        None \<Rightarrow> \<lparr>tr_id = ac_id a, tr_callsign = ac_callsign a, tr_points = []\<rparr>
      | Some e \<Rightarrow>
          \<lparr>tr_id = ac_id a,
           tr_callsign = (case he_callsign e of Some c \<Rightarrow> Some c | None \<Rightarrow> ac_callsign a),
           tr_points = he_points e\<rparr>)"

definition stabilityOf :: "Trail list \<Rightarrow> (string \<rightharpoonup> real)" where
  "stabilityOf outTrails = fold (\<lambda>t stab. stab(tr_id t \<mapsto> computeInstability (tr_points t))) outTrails Map.empty"

section \<open>The application state and one tick\<close>

record AppState =
  st_aircraft :: "AircraftState list"
  st_tracks :: "ProjectedTrack list"
  st_selected :: "Conflict option"
  st_history :: history
  st_trails :: "Trail list"
  st_stabilityById :: "string \<rightharpoonup> real"
  st_weatherTimeISO :: "real option"
  st_alerts :: "Alert list"
  st_enabledTypes :: "AlertType \<Rightarrow> bool"
  st_minSeverity :: AlertSeverity

definition updateHistoryFromAircraft :: "real \<Rightarrow> AircraftState list \<Rightarrow> AppState \<Rightarrow> AppState" where
  "updateHistoryFromAircraft now ac s =
     (let m = updateHistory now ac (st_history s);
          outTrails = map (outTrail m) ac
      in s\<lparr>st_history := m, st_trails := outTrails, st_stabilityById := stabilityOf outTrails\<rparr>)"

definition sepSeverity :: "Conflict \<Rightarrow> AlertSeverity" where
  "sepSeverity c =
     (if first_breach_s c < 180 then warning else if first_breach_s c < 420 then caution else info)"

definition sepAlert :: "int \<Rightarrow> Conflict \<Rightarrow> Alert" where
  "sepAlert time_s c =
     \<lparr>al_id = SepId (conflictKey c) time_s,
      al_type = separation,
      al_severity = sepSeverity c,
      al_involvedAircraftIds = [a_id c, b_id c],
      al_lat = cpa_lat c, al_lon = cpa_lon c,
      al_time_s = time_s, al_conflict = Some c\<rparr>"

text \<open>The updater handed to \<^verbatim>\<open>setSelected\<close> at the end of the pass.\<close>

definition keepSelection :: "Conflict list \<Rightarrow> Conflict option \<Rightarrow> Conflict option" where
  "keepSelection sepConflicts prev =
     (case sepConflicts of
        [] \<Rightarrow> None
      | c0 # _ \<Rightarrow>
          (case prev of
             Some p \<Rightarrow> if list_ex (\<lambda>c. sameConflict c p) sepConflicts then Some p else Some c0
           | None \<Rightarrow> Some c0))"

text \<open>
  One recomputation pass. The clock reading of the history update, the projector and the
  radar lookup are parameters; a projector that throws is \<open>Inl\<close> of its message. The
  weather time handed to the sampling step is the one the state held before this pass.
\<close>

definition recompute ::
    "real \<Rightarrow> (AircraftState list \<Rightarrow> string + ProjectedTrack list) \<Rightarrow> sampler
     \<Rightarrow> AircraftState list \<Rightarrow> real \<Rightarrow> AppState \<Rightarrow> AppState" where
  "recompute now projectTracks geometRadarValue ac timeMs s =
     (let s1 = updateHistoryFromAircraft now ac
                 (s\<lparr>st_weatherTimeISO := Some (roundToMinutes timeMs 5), st_aircraft := ac\<rparr>);
          projected = (case projectTracks ac of Inr p \<Rightarrow> p | Inl e \<Rightarrow> []);
          s2 = s1\<lparr>st_tracks := projected\<rparr>;
          sepConflicts = detectSeparationConflicts projected 5 1000;
          time_s = \<lfloor>timeMs / 1000\<rfloor>;
          sepAlerts = map (sepAlert time_s) sepConflicts;
          localAlerts = buildLocalAlerts ac timeMs;
          weatherAlerts = fst (buildWeatherAlerts geometRadarValue ac timeMs (st_weatherTimeISO s));
          al = sepAlerts @ weatherAlerts @ localAlerts
      in s2\<lparr>st_alerts := al, st_selected := keepSelection sepConflicts (st_selected s2)\<rparr>)"

section \<open>The visible sets and the selection effect\<close>

definition visibleAlerts :: "AppState \<Rightarrow> Alert list" where
  "visibleAlerts s = filterAlerts (st_alerts s) (st_enabledTypes s) (st_minSeverity s)"

definition visibleConflicts :: "AppState \<Rightarrow> Conflict list" where
  "visibleConflicts s =
     (let raw = concat (map (\<lambda>a. case al_conflict a of
                                   Some c \<Rightarrow> if al_type a = separation then [c] else []
                                 | None \<Rightarrow> [])
                            (visibleAlerts s));
          mp = fold (\<lambda>c m. AList.update (conflictKey c) c m) raw []
      in map snd mp)"

text \<open>The effect that runs when the visible conflicts change.\<close>

definition selectionEffect :: "AppState \<Rightarrow> AppState" where
  "selectionEffect s =
     (let vis = visibleConflicts s
      in case st_selected s of
           None \<Rightarrow> (case vis of [] \<Rightarrow> s | v # _ \<Rightarrow> s\<lparr>st_selected := Some v\<rparr>)
         | Some sel \<Rightarrow>
             if list_ex (\<lambda>c. sameConflict c sel) vis then s
             else s\<lparr>st_selected := (case vis of [] \<Rightarrow> None | v # _ \<Rightarrow> Some v)\<rparr>)"

text \<open>
  One tick as the state sees it: the pass, then the effect, which runs after the render
  that shows the new alerts together with the new selection.
\<close>

definition tick ::
    "real \<Rightarrow> (AircraftState list \<Rightarrow> string + ProjectedTrack list) \<Rightarrow> sampler
     \<Rightarrow> AircraftState list \<Rightarrow> real \<Rightarrow> AppState \<Rightarrow> AppState" where
  "tick now projectTracks geometRadarValue ac timeMs s =
     selectionEffect (recompute now projectTracks geometRadarValue ac timeMs s)"

section \<open>Notions used in the statements and proofs\<close>

text \<open>The conflict of a pair with first breach at sample \<open>f\<close> and closest approach at sample \<open>m\<close>.\<close>

definition conflictOf :: "ProjectedTrack \<Rightarrow> ProjectedTrack \<Rightarrow> nat \<Rightarrow> nat \<Rightarrow> Conflict" where
  "conflictOf a b f m =
     \<lparr>a_id = trk_id a, b_id = trk_id b,
      cpa_lat = (pp_lat (trk_points a ! m) + pp_lat (trk_points b ! m)) / 2,
      cpa_lon = (pp_lon (trk_points a ! m) + pp_lon (trk_points b ! m)) / 2,
      first_breach_s = real f * min (stepSeconds a) (stepSeconds b),
      min_h_nm = hSep a b m,
      min_v_ft = vSep a b m\<rparr>"

text \<open>
  The shape shared by the nested loops over \<open>i\<close> and \<open>j > i\<close>: the body runs once for
  every element and every later element. It is used to reason about both pair loops.
\<close>

fun loopJ :: "('a \<Rightarrow> 'a \<Rightarrow> 'b list) \<Rightarrow> 'a \<Rightarrow> 'a list \<Rightarrow> 'b list" where
  "loopJ f u [] = []"
| "loopJ f u (v # vs) = f u v @ loopJ f u vs"

fun loopI :: "('a \<Rightarrow> 'a \<Rightarrow> 'b list) \<Rightarrow> 'a list \<Rightarrow> 'b list" where
  "loopI f [] = []"
| "loopI f (u # us) = loopJ f u us @ loopI f us"

text \<open>A map from ids to tracks in which every track sits under its own id, once.\<close>

definition byIdOk :: "(string \<times> ProjectedTrack) list \<Rightarrow> bool" where
  "byIdOk m \<longleftrightarrow> distinct (map fst m) \<and> (\<forall>(k, t) \<in> set m. trk_id t = k)"

text \<open>The body of the pair loop of the detector, for the ids \<open>i\<close> and \<open>j\<close>.\<close>

definition pairBody :: "(string \<times> ProjectedTrack) list \<Rightarrow> real \<Rightarrow> real \<Rightarrow> string \<Rightarrow> string \<Rightarrow> Conflict list" where
  "pairBody byId H V i j =
     (case (map_of byId i, map_of byId j) of (Some a, Some b) \<Rightarrow> pairConflict a b H V | _ \<Rightarrow> [])"

text \<open>A conflict is about the unordered pair of ids \<open>x\<close> and \<open>y\<close>.\<close>

definition pairIds :: "string \<Rightarrow> string \<Rightarrow> Conflict \<Rightarrow> bool" where
  "pairIds x y c \<longleftrightarrow> (a_id c = x \<and> b_id c = y) \<or> (a_id c = y \<and> b_id c = x)"



text \<open>A projector that answers with no tracks at all.\<close>

definition projectorEmpty :: "AircraftState list \<Rightarrow> string + ProjectedTrack list" where
  "projectorEmpty ac = Inr []"

text \<open>The alert is a separation alert.\<close>

definition isSeparation :: "Alert \<Rightarrow> bool" where
  "isSeparation al \<longleftrightarrow> al_type al = separation"

text \<open>The points the history holds for an id, none when the id is unknown.\<close>

definition pointsOf :: "history \<Rightarrow> string \<Rightarrow> TrailPoint list" where
  "pointsOf m x = (case map_of m x of None \<Rightarrow> [] | Some e \<Rightarrow> he_points e)"

text \<open>
  The buffer of id \<open>x\<close> is in time order and holds nothing later than \<open>now\<close>: what a
  clock that never runs backwards leaves behind.
\<close>

definition trailOrdered :: "real \<Rightarrow> history \<Rightarrow> string \<Rightarrow> bool" where
  "trailOrdered now m x \<longleftrightarrow> sorted (map tp_ts (pointsOf m x)) \<and> list_all (\<lambda>p. tp_ts p \<le> now) (pointsOf m x)"

text \<open>The track list a pass works with: the projector's answer, or nothing when it failed.\<close>

definition projectedOf :: "string + ProjectedTrack list \<Rightarrow> ProjectedTrack list" where
  "projectedOf r = (case r of Inr p \<Rightarrow> p | Inl e \<Rightarrow> [])"

text \<open>The separation alert of a conflict passes the filters of the state.\<close>

definition sepVisible :: "AppState \<Rightarrow> Conflict \<Rightarrow> bool" where
  "sepVisible s c \<longleftrightarrow>
     st_enabledTypes s separation \<and> severityRank (sepSeverity c) \<ge> severityRank (st_minSeverity s)"

text \<open>The conflict picked out of an alert by the visible-conflicts computation.\<close>

definition alertConflict :: "Alert \<Rightarrow> Conflict list" where
  "alertConflict a =
     (case al_conflict a of Some c \<Rightarrow> if al_type a = separation then [c] else [] | None \<Rightarrow> [])"

section \<open>Inputs used by the examples\<close>

text \<open>A sighting at latitude 0, longitude 0 at time \<open>t\<close>.\<close>

definition still :: "real \<Rightarrow> TrailPoint" where
  "still t = \<lparr>tp_ts = t, tp_lat = 0, tp_lon = 0, tp_alt_ft = None, tp_track_deg = None\<rparr>"

text \<open>
  Three projected tracks on the equator, one sample a minute. A and B start half a turn
  apart at the same level, then fly at the same position, 2000 ft apart at the second
  sample and 500 ft apart at the third. C is B cut after its second sample.
\<close>

definition exPt :: "real \<Rightarrow> real \<Rightarrow> real \<Rightarrow> real \<Rightarrow> ProjectedPoint" where
  "exPt la lo alt t = \<lparr>pp_lat = la, pp_lon = lo, pp_alt_ft = Some alt, pp_t_s = Some t\<rparr>"

definition trackA :: ProjectedTrack where
  "trackA = \<lparr>trk_id = ''A'', trk_points = [exPt 0 0 10000 0, exPt 0 0 10000 60, exPt 0 0 10000 120]\<rparr>"

definition trackB :: ProjectedTrack where
  "trackB = \<lparr>trk_id = ''B'', trk_points = [exPt 0 180 10000 0, exPt 0 0 12000 60, exPt 0 0 10500 120]\<rparr>"

definition trackC :: ProjectedTrack where
  "trackC = \<lparr>trk_id = ''C'', trk_points = [exPt 0 180 10000 0, exPt 0 0 12000 60]\<rparr>"

definition conflictAB :: Conflict where
  "conflictAB = \<lparr>a_id = ''A'', b_id = ''B'', cpa_lat = 0, cpa_lon = 0,
                  first_breach_s = 120, min_h_nm = 0, min_v_ft = 2000\<rparr>"

text \<open>The distance between two antipodal points.\<close>

definition halfTurnNm :: real where
  "halfTurnNm = 6371000 * pi / 1852"

text \<open>
  Three aircraft on the prime meridian. W1 and W2 are half of \<open>pi\<close> nautical miles apart
  (about 1.57), 300 ft apart in level and 10 degrees apart in track. W3 is at the position
  of W1, 200 ft above it, on a track 40 degrees off.
\<close>

definition exAc :: "string \<Rightarrow> real \<Rightarrow> real \<Rightarrow> real \<Rightarrow> AircraftState" where
  "exAc i la alt trk =
     \<lparr>ac_id = i, ac_callsign = None, ac_lat = la, ac_lon = 0, ac_alt_ft = alt, ac_gs_kt = 250,
      ac_track_deg = Some trk, ac_vr_fpm = None\<rparr>"

definition wakeA :: AircraftState where "wakeA = exAc ''W1'' 0 10000 90"

definition wakeB :: AircraftState where "wakeB = exAc ''W2'' (4167 / 159275) 10300 100"

definition wakeC :: AircraftState where "wakeC = exAc ''W3'' 0 10200 130"

text \<open>A radar service with no signal anywhere, and a projector that is down.\<close>

definition noRadar :: sampler where
  "noRadar la lo t = None"

definition projectorDown :: "AircraftState list \<Rightarrow> string + ProjectedTrack list" where
  "projectorDown ac = Inl ''Project failed: 503''"

text \<open>The state the application starts in.\<close>

definition initialState :: AppState where
  "initialState =
     \<lparr>st_aircraft = [], st_tracks = [], st_selected = None, st_history = [], st_trails = [],
      st_stabilityById = Map.empty, st_weatherTimeISO = None, st_alerts = [],
      st_enabledTypes = (\<lambda>t. True), st_minSeverity = info\<rparr>"

text \<open>
  Thirty-one aircraft near Montreal: thirty, first in the snapshot, \<open>pi\<close> nautical miles
  north of the reference point, and a last one exactly at the reference point.
\<close>

definition wxNear :: AircraftState where
  "wxNear = \<lparr>ac_id = ''N'', ac_callsign = None, ac_lat = 45.5019, ac_lon = - 73.5674,
             ac_alt_ft = 5000, ac_gs_kt = 250, ac_track_deg = Some 0, ac_vr_fpm = None\<rparr>"

definition wxFar :: "nat \<Rightarrow> AircraftState" where
  "wxFar i = \<lparr>ac_id = replicate (Suc i) CHR ''F'', ac_callsign = None,
              ac_lat = 45.5019 + 8334 / 159275, ac_lon = - 73.5674,
              ac_alt_ft = 5000 + 1000 * real i, ac_gs_kt = 250, ac_track_deg = Some 0, ac_vr_fpm = None\<rparr>"

definition wxFleet :: "AircraftState list" where
  "wxFleet = map wxFar [0 ..< 30] @ [wxNear]"



text \<open>The wake alert of W1 and W2, and the congestion alert of the ten stacked aircraft.\<close>

definition wakeAlertAB :: Alert where
  "wakeAlertAB =
     \<lparr>al_id = LocalWakeId ''W1'' ''W2'' 0, al_type = wake, al_severity = caution,
      al_involvedAircraftIds = [''W1'', ''W2''],
      al_lat = (0 + 4167 / 159275) / 2, al_lon = (0 + 0) / 2,
      al_time_s = 0, al_conflict = None\<rparr>"


text \<open>
  A history from four minutes and ten seconds of flight: W1 was seen at 0 and at 250 s,
  Z9 was seen once at 0 and is absent from the next snapshot.
\<close>

definition exHistory :: history where
  "exHistory =
     [(''W1'', \<lparr>he_callsign = None, he_points = [still 0, still 250000]\<rparr>),
      (''Z9'', \<lparr>he_callsign = None, he_points = [still 0]\<rparr>)]"

text \<open>
  The conflict of B and C, which breach at once, and the conflict of A and B as an earlier
  tick reported it, with other numbers. The projector below answers with the three example
  tracks.
\<close>

definition conflictBC :: Conflict where
  "conflictBC = \<lparr>a_id = ''B'', b_id = ''C'', cpa_lat = 0, cpa_lon = 180,
                  first_breach_s = 0, min_h_nm = 0, min_v_ft = 0\<rparr>"

definition staleAB :: Conflict where
  "staleAB = \<lparr>a_id = ''A'', b_id = ''B'', cpa_lat = 1, cpa_lon = 1,
               first_breach_s = 180, min_h_nm = 2, min_v_ft = 2500\<rparr>"

definition projectABC :: "AircraftState list \<Rightarrow> string + ProjectedTrack list" where
  "projectABC ac = Inr [trackA, trackB, trackC]"

section \<open>Facts about the helpers\<close>



section \<open>The great-circle distance\<close>

lemma sin_half_sq: "(sin (x / 2))\<^sup>2 = (1 - cos x) / 2" for x :: real
  using cos_double_sin [of "x / 2"] by simp

lemma haversineA_dot:
  "haversineA lat1 lon1 lat2 lon2 =
     (1 - (cos (toRad lat1) * cos (toRad lat2) * cos (toRad lon2 - toRad lon1)
          + sin (toRad lat1) * sin (toRad lat2))) / 2"
proof -
  have dp: "toRad (lat2 - lat1) = toRad lat2 - toRad lat1"
    by (simp add: toRad_def algebra_simps diff_divide_distrib)
  have dl: "toRad (lon2 - lon1) = toRad lon2 - toRad lon1"
    by (simp add: toRad_def algebra_simps diff_divide_distrib)
  show ?thesis
    unfolding haversineA_def Let_def dp dl sin_half_sq
    by (simp add: cos_diff field_simps)
qed

lemma chord_alg:
  fixes s1 c1 s2 c2 u1 v1 u2 v2 :: real
  assumes "s1\<^sup>2 + c1\<^sup>2 = 1" "s2\<^sup>2 + c2\<^sup>2 = 1" "u1\<^sup>2 + v1\<^sup>2 = 1" "u2\<^sup>2 + v2\<^sup>2 = 1"
  shows "(c1 * v1 - c2 * v2)\<^sup>2 + (c1 * u1 - c2 * u2)\<^sup>2 + (s1 - s2)\<^sup>2
         = 2 - 2 * (c1 * c2 * (v2 * v1 + u2 * u1) + s1 * s2)"
proof -
  have "(c1 * v1 - c2 * v2)\<^sup>2 + (c1 * u1 - c2 * u2)\<^sup>2 + (s1 - s2)\<^sup>2
        = c1\<^sup>2 * (u1\<^sup>2 + v1\<^sup>2) + c2\<^sup>2 * (u2\<^sup>2 + v2\<^sup>2) + (s1\<^sup>2 + s2\<^sup>2)
          - 2 * (c1 * c2 * (v2 * v1 + u2 * u1) + s1 * s2)"
    by (simp add: power2_eq_square algebra_simps)
  also have "\<dots> = (s1\<^sup>2 + c1\<^sup>2) + (s2\<^sup>2 + c2\<^sup>2) - 2 * (c1 * c2 * (v2 * v1 + u2 * u1) + s1 * s2)"
    using assms(3,4) by simp
  finally show ?thesis using assms(1,2) by simp
qed

lemma haversineA_chord:
  "4 * haversineA lat1 lon1 lat2 lon2 =
     (cos (toRad lat1) * cos (toRad lon1) - cos (toRad lat2) * cos (toRad lon2))\<^sup>2
   + (cos (toRad lat1) * sin (toRad lon1) - cos (toRad lat2) * sin (toRad lon2))\<^sup>2
   + (sin (toRad lat1) - sin (toRad lat2))\<^sup>2"
  unfolding haversineA_dot cos_diff
  by (subst chord_alg) simp_all

lemma haversineA_ge0: "0 \<le> haversineA lat1 lon1 lat2 lon2"
proof -
  have "0 \<le> 4 * haversineA lat1 lon1 lat2 lon2"
    unfolding haversineA_chord by simp
  then show ?thesis by simp
qed

lemma haversineA_le1: "haversineA lat1 lon1 lat2 lon2 \<le> 1"
proof -
  define d where "d = cos (toRad lat1) * cos (toRad lat2) *
      (cos (toRad lon2) * cos (toRad lon1) + sin (toRad lon2) * sin (toRad lon1))
      + sin (toRad lat1) * sin (toRad lat2)"
  have A: "haversineA lat1 lon1 lat2 lon2 = (1 - d) / 2"
    unfolding haversineA_dot cos_diff d_def by simp
  have "(cos (toRad lat1) * cos (toRad lon1) - (- cos (toRad lat2)) * cos (toRad lon2))\<^sup>2
   + (cos (toRad lat1) * sin (toRad lon1) - (- cos (toRad lat2)) * sin (toRad lon2))\<^sup>2
   + (sin (toRad lat1) - (- sin (toRad lat2)))\<^sup>2
   = 2 - 2 * (cos (toRad lat1) * (- cos (toRad lat2)) *
        (cos (toRad lon2) * cos (toRad lon1) + sin (toRad lon2) * sin (toRad lon1))
        + sin (toRad lat1) * (- sin (toRad lat2)))"
    by (rule chord_alg) simp_all
  also have "\<dots> = 2 + 2 * d"
    unfolding d_def by (simp add: algebra_simps)
  finally have "0 \<le> 2 + 2 * d"
    by (metis add_nonneg_nonneg zero_le_power2)
  with A show ?thesis by simp
qed

lemma haversineA_sym: "haversineA lat1 lon1 lat2 lon2 = haversineA lat2 lon2 lat1 lon1"
  unfolding haversineA_dot cos_diff by (simp add: algebra_simps)


lemma atan2_eq0: "0 \<le> y \<Longrightarrow> 0 \<le> x \<Longrightarrow> atan2 y x = 0 \<longleftrightarrow> y = 0"
  by (auto simp: atan2_def)

lemma haversineNm_sym: "haversineNm lat1 lon1 lat2 lon2 = haversineNm lat2 lon2 lat1 lon1"
  unfolding haversineNm_def by (simp add: haversineA_sym [of lat1 lon1 lat2 lon2])


lemma haversineNm_eq0: "haversineNm lat1 lon1 lat2 lon2 = 0 \<longleftrightarrow> haversineA lat1 lon1 lat2 lon2 = 0"
  unfolding haversineNm_def Let_def
  using atan2_eq0 [of "sqrt (haversineA lat1 lon1 lat2 lon2)" "sqrt (1 - haversineA lat1 lon1 lat2 lon2)"]
    haversineA_ge0 [of lat1 lon1 lat2 lon2] haversineA_le1 [of lat1 lon1 lat2 lon2]
  by simp

lemma haversineA_eq0:
  "haversineA lat1 lon1 lat2 lon2 = 0 \<longleftrightarrow>
     cos (toRad lat1) * cos (toRad lon1) = cos (toRad lat2) * cos (toRad lon2) \<and>
     cos (toRad lat1) * sin (toRad lon1) = cos (toRad lat2) * sin (toRad lon2) \<and>
     sin (toRad lat1) = sin (toRad lat2)"
proof -
  have "haversineA lat1 lon1 lat2 lon2 = 0 \<longleftrightarrow> 4 * haversineA lat1 lon1 lat2 lon2 = 0" by simp
  also have "\<dots> \<longleftrightarrow> cos (toRad lat1) * cos (toRad lon1) = cos (toRad lat2) * cos (toRad lon2) \<and>
     cos (toRad lat1) * sin (toRad lon1) = cos (toRad lat2) * sin (toRad lon2) \<and>
     sin (toRad lat1) = sin (toRad lat2)"
    unfolding haversineA_chord by (simp add: sum_power2_eq_zero_iff add_nonneg_eq_0_iff)
  finally show ?thesis .
qed

lemma haversineNm_same: "haversineNm lat1 lon1 lat1 lon1 = 0"
  by (simp add: haversineNm_eq0 haversineA_eq0)


lemma toRad_less: "toRad x < toRad y \<longleftrightarrow> x < y"
  by (simp add: toRad_def divide_less_cancel)








section \<open>The instability score\<close>





section \<open>The conflict detector\<close>

lemma walkPair_0: "walkPair a b H V 0 = walkInit"
  by (simp add: walkPair_def)

lemma walkPair_Suc: "walkPair a b H V (Suc n) = walkStep a b H V n (walkPair a b H V n)"
  by (simp add: walkPair_def)

lemma walk_breach_none:
  "firstBreachIdx (walkPair a b H V n) = None \<longleftrightarrow> (\<forall>k<n. \<not> breachAt a b H V k)"
proof (induction n)
  case 0
  then show ?case by (simp add: walkPair_0 walkInit_def)
next
  case (Suc n)
  then show ?case
    by (auto simp: walkPair_Suc walkStep_def Let_def breachAt_def less_Suc_eq)
qed

lemma walk_breach_some:
  "firstBreachIdx (walkPair a b H V n) = Some f \<Longrightarrow>
     f < n \<and> breachAt a b H V f \<and> (\<forall>k<f. \<not> breachAt a b H V k)"
proof (induction n)
  case 0
  then show ?case by (simp add: walkPair_0 walkInit_def)
next
  case (Suc n)
  show ?case
  proof (cases "firstBreachIdx (walkPair a b H V n)")
    case None
    with Suc.prems have "f = n \<and> breachAt a b H V n"
      by (auto simp: walkPair_Suc walkStep_def Let_def breachAt_def split: if_splits)
    moreover from None have "\<forall>k<n. \<not> breachAt a b H V k"
      by (simp add: walk_breach_none)
    ultimately show ?thesis by simp
  next
    case (Some g)
    with Suc.prems have "f = g"
      by (auto simp: walkPair_Suc walkStep_def Let_def split: if_splits)
    with Some Suc.IH show ?thesis by auto
  qed
qed

lemma walk_min:
  "0 < n \<Longrightarrow>
     minIdx (walkPair a b H V n) < n
     \<and> minH (walkPair a b H V n) = Some (hSep a b (minIdx (walkPair a b H V n)))
     \<and> minV (walkPair a b H V n) = Some (vSep a b (minIdx (walkPair a b H V n)))
     \<and> (\<forall>k<n. hSep a b (minIdx (walkPair a b H V n)) \<le> hSep a b k)
     \<and> (\<forall>k<minIdx (walkPair a b H V n). hSep a b (minIdx (walkPair a b H V n)) < hSep a b k)"
proof (induction n)
  case 0
  then show ?case by simp
next
  case (Suc n)
  show ?case
  proof (cases "n = 0")
    case True
    then show ?thesis
      by (simp add: walkPair_Suc walkPair_0 walkInit_def walkStep_def Let_def belowMin_def)
  next
    case False
    with Suc.IH have IH: "minIdx (walkPair a b H V n) < n"
      "minH (walkPair a b H V n) = Some (hSep a b (minIdx (walkPair a b H V n)))"
      "minV (walkPair a b H V n) = Some (vSep a b (minIdx (walkPair a b H V n)))"
      "\<forall>k<n. hSep a b (minIdx (walkPair a b H V n)) \<le> hSep a b k"
      "\<forall>k<minIdx (walkPair a b H V n). hSep a b (minIdx (walkPair a b H V n)) < hSep a b k"
      by simp_all
    show ?thesis
    proof (cases "hSep a b n < hSep a b (minIdx (walkPair a b H V n))")
      case True
      then have "minIdx (walkPair a b H V (Suc n)) = n"
        "minH (walkPair a b H V (Suc n)) = Some (hSep a b n)"
        "minV (walkPair a b H V (Suc n)) = Some (vSep a b n)"
        using IH(2) by (simp_all add: walkPair_Suc walkStep_def Let_def belowMin_def)
      moreover have "\<forall>k<Suc n. hSep a b n \<le> hSep a b k"
        using True IH(4) by (auto simp: less_Suc_eq)
      moreover have "\<forall>k<n. hSep a b n < hSep a b k"
        using True IH(4) by fastforce
      ultimately show ?thesis by simp
    next
      case F2: False
      then have "minIdx (walkPair a b H V (Suc n)) = minIdx (walkPair a b H V n)"
        "minH (walkPair a b H V (Suc n)) = minH (walkPair a b H V n)"
        "minV (walkPair a b H V (Suc n)) = minV (walkPair a b H V n)"
        using IH(2) by (simp_all add: walkPair_Suc walkStep_def Let_def belowMin_def)
      moreover have "\<forall>k<Suc n. hSep a b (minIdx (walkPair a b H V n)) \<le> hSep a b k"
        using F2 IH(4) by (auto simp: less_Suc_eq)
      ultimately show ?thesis using IH by simp
    qed
  qed
qed

lemma pairConflict_none:
  assumes "n = min (length (trk_points a)) (length (trk_points b))"
  shows "pairConflict a b H V = [] \<longleftrightarrow> (n < 2 \<or> (\<forall>k<n. \<not> breachAt a b H V k))"
proof (cases "n < 2")
  case True
  with assms show ?thesis by (simp add: pairConflict_def)
next
  case False
  then have pos: "0 < n" by simp
  note m = walk_min [OF pos, of a b H V]
  show ?thesis
  proof (cases "firstBreachIdx (walkPair a b H V n)")
    case None
    then show ?thesis
      using assms False walk_breach_none [of a b H V n]
      by (simp add: pairConflict_def Let_def)
  next
    case (Some f)
    then show ?thesis
      using assms False walk_breach_none [of a b H V n] m
      by (simp add: pairConflict_def Let_def)
  qed
qed

lemma pairConflict_some:
  assumes n: "n = min (length (trk_points a)) (length (trk_points b))"
    and ne: "pairConflict a b H V \<noteq> []"
  shows "\<exists>f m. pairConflict a b H V = [conflictOf a b f m]
           \<and> 2 \<le> n \<and> f < n \<and> breachAt a b H V f \<and> (\<forall>k<f. \<not> breachAt a b H V k)
           \<and> m < n \<and> (\<forall>k<n. hSep a b m \<le> hSep a b k) \<and> (\<forall>k<m. hSep a b m < hSep a b k)"
proof -
  from ne n have n2: "\<not> n < 2" by (auto simp: pairConflict_def)
  then have pos: "0 < n" by simp
  note m = walk_min [OF pos, of a b H V]
  from ne n n2 obtain f where f: "firstBreachIdx (walkPair a b H V n) = Some f"
    by (cases "firstBreachIdx (walkPair a b H V n)") (auto simp: pairConflict_def Let_def)
  have "pairConflict a b H V = [conflictOf a b f (minIdx (walkPair a b H V n))]"
    using n n2 f m by (simp add: pairConflict_def Let_def conflictOf_def)
  with walk_breach_some [OF f] m n2 show ?thesis by (intro exI [of _ f] exI [of _ "minIdx (walkPair a b H V n)"]) simp
qed

lemma loopJ_mem: "c \<in> set (loopJ f u vs) \<longleftrightarrow> (\<exists>v\<in>set vs. c \<in> set (f u v))"
  by (induction vs) auto

lemma loopI_mem: "c \<in> set (loopI f us) \<Longrightarrow> \<exists>u\<in>set us. \<exists>v\<in>set us. c \<in> set (f u v)"
  by (induction us) (auto simp: loopJ_mem)

lemma loopJ_filter_nil:
  "(\<And>v. v \<in> set vs \<Longrightarrow> filter Q (f u v) = []) \<Longrightarrow> filter Q (loopJ f u vs) = []"
  by (induction vs) auto

lemma loopI_filter_nil:
  "(\<And>u v. u \<in> set us \<Longrightarrow> v \<in> set us \<Longrightarrow> filter Q (f u v) = []) \<Longrightarrow> filter Q (loopI f us) = []"
  by (induction us) (auto simp: loopJ_filter_nil)

lemma loopJ_filter_one:
  "distinct vs \<Longrightarrow> y \<in> set vs \<Longrightarrow> (\<And>v. v \<in> set vs \<Longrightarrow> v \<noteq> y \<Longrightarrow> filter Q (f u v) = [])
     \<Longrightarrow> filter Q (loopJ f u vs) = filter Q (f u y)"
proof (induction vs)
  case Nil
  then show ?case by simp
next
  case (Cons v vs)
  show ?case
  proof (cases "v = y")
    case True
    with Cons.prems have "filter Q (loopJ f u vs) = []"
      by (intro loopJ_filter_nil) auto
    with True show ?thesis by simp
  next
    case False
    with Cons show ?thesis by auto
  qed
qed

lemma loopI_filter_pair:
  assumes "distinct us" "x \<in> set us" "y \<in> set us" "x \<noteq> y"
    and other: "\<And>u v. u \<in> set us \<Longrightarrow> v \<in> set us \<Longrightarrow> (u, v) \<noteq> (x, y) \<Longrightarrow> (u, v) \<noteq> (y, x)
                  \<Longrightarrow> filter Q (f u v) = []"
  shows "filter Q (loopI f us) = filter Q (f x y) \<or> filter Q (loopI f us) = filter Q (f y x)"
  using assms
proof (induction us)
  case Nil
  then show ?case by simp
next
  case (Cons u us)
  have rest_nil: "filter Q (loopI f us) = []" if "x \<notin> set us \<or> y \<notin> set us"
  proof (rule loopI_filter_nil)
    fix p q assume "p \<in> set us" "q \<in> set us"
    with that Cons.prems show "filter Q (f p q) = []"
      by (intro Cons.prems(5)) auto
  qed
  consider "u = x" | "u = y" | "u \<noteq> x" "u \<noteq> y" by blast
  then show ?case
  proof cases
    case 1
    with Cons.prems have y: "y \<in> set us" and nx: "x \<notin> set us" and d: "distinct us" by auto
    have "filter Q (loopJ f x us) = filter Q (f x y)"
    proof (rule loopJ_filter_one [OF d y])
      fix v assume "v \<in> set us" "v \<noteq> y"
      with nx Cons.prems 1 show "filter Q (f x v) = []"
        by (intro Cons.prems(5)) auto
    qed
    with 1 rest_nil nx show ?thesis by simp
  next
    case 2
    with Cons.prems have x: "x \<in> set us" and ny: "y \<notin> set us" and d: "distinct us" by auto
    have "filter Q (loopJ f y us) = filter Q (f y x)"
    proof (rule loopJ_filter_one [OF d x])
      fix v assume "v \<in> set us" "v \<noteq> x"
      with ny Cons.prems 2 show "filter Q (f y v) = []"
        by (intro Cons.prems(5)) auto
    qed
    with 2 rest_nil ny show ?thesis by simp
  next
    case 3
    with Cons.prems have x: "x \<in> set us" and y: "y \<in> set us" and d: "distinct us" by auto
    have "filter Q (loopJ f u us) = []"
    proof (rule loopJ_filter_nil)
      fix v assume "v \<in> set us"
      with 3 Cons.prems show "filter Q (f u v) = []"
        by (intro Cons.prems(5)) auto
    qed
    moreover have "filter Q (loopI f us) = filter Q (f x y) \<or> filter Q (loopI f us) = filter Q (f y x)"
      using d x y Cons.prems(4)
    proof (rule Cons.IH)
      fix p q assume "p \<in> set us" "q \<in> set us" "(p, q) \<noteq> (x, y)" "(p, q) \<noteq> (y, x)"
      then show "filter Q (f p q) = []" by (intro Cons.prems(5)) auto
    qed
    ultimately show ?thesis by auto
  qed
qed

lemma set_update_subset: "set (AList.update k v al) \<subseteq> insert (k, v) (set al)"
  by (induction al) auto

lemma byIdOk_update: "byIdOk m \<Longrightarrow> byIdOk (AList.update (trk_id t) t m)"
  unfolding byIdOk_def using set_update_subset [of "trk_id t" t m]
  by (auto simp: distinct_update)

lemma byIdOk_fold: "byIdOk m \<Longrightarrow> byIdOk (fold (\<lambda>t m. AList.update (trk_id t) t m) tracks m)"
  by (induction tracks arbitrary: m) (simp_all add: byIdOk_update)

lemma byIdOk_new: "byIdOk (newMapById tracks)"
  unfolding newMapById_def by (rule byIdOk_fold) (simp add: byIdOk_def)

lemma byIdOk_lookup: "byIdOk m \<Longrightarrow> map_of m k = Some t \<Longrightarrow> trk_id t = k"
  unfolding byIdOk_def by (auto dest: map_of_SomeD)

lemma fold_update_keys:
  "fst ` set (fold (\<lambda>t m. AList.update (trk_id t) t m) tracks m) = fst ` set m \<union> trk_id ` set tracks"
  by (induction tracks arbitrary: m) (auto simp: dom_update)

lemma newMapById_keys: "set (map fst (newMapById tracks)) = trk_id ` set tracks"
  using fold_update_keys [of tracks "[]"] by (simp add: newMapById_def)

lemma fold_update_lookup:
  "distinct (map trk_id tracks) \<Longrightarrow> t \<in> set tracks
     \<Longrightarrow> map_of (fold (\<lambda>t m. AList.update (trk_id t) t m) tracks m) (trk_id t) = Some t"
proof (induction tracks arbitrary: m)
  case Nil
  then show ?case by simp
next
  case (Cons u tracks)
  show ?case
  proof (cases "t \<in> set tracks")
    case True
    with Cons show ?thesis by simp
  next
    case False
    with Cons.prems have u: "t = u" and nin: "trk_id u \<notin> trk_id ` set tracks" by auto
    have keep: "map_of (fold (\<lambda>t m. AList.update (trk_id t) t m) ts m') k = map_of m' k"
      if "k \<notin> trk_id ` set ts" for ts m' k
      using that by (induction ts arbitrary: m') (auto simp: update_conv')
    show ?thesis using u keep [OF nin] by (simp add: update_conv')
  qed
qed

lemma newMapById_lookup:
  "distinct (map trk_id tracks) \<Longrightarrow> t \<in> set tracks \<Longrightarrow> map_of (newMapById tracks) (trk_id t) = Some t"
  unfolding newMapById_def by (rule fold_update_lookup)

lemma pairLoopJ_loopJ: "pairLoopJ byId H V i js = loopJ (pairBody byId H V) i js"
  by (induction js) (simp_all add: pairBody_def)

lemma pairLoopI_loopI: "pairLoopI byId H V ids = loopI (pairBody byId H V) ids"
  by (induction ids) (simp_all add: pairLoopJ_loopJ)

lemma pairConflict_ids: "c \<in> set (pairConflict a b H V) \<Longrightarrow> a_id c = trk_id a \<and> b_id c = trk_id b"
  by (auto simp: pairConflict_def Let_def split: if_splits option.splits)

lemma pairBody_ids:
  "byIdOk byId \<Longrightarrow> c \<in> set (pairBody byId H V i j) \<Longrightarrow> a_id c = i \<and> b_id c = j"
proof -
  assume ok: "byIdOk byId" and c: "c \<in> set (pairBody byId H V i j)"
  from c obtain a b where a: "map_of byId i = Some a" and b: "map_of byId j = Some b"
    and m: "c \<in> set (pairConflict a b H V)"
    by (cases "map_of byId i"; cases "map_of byId j") (auto simp: pairBody_def)
  from pairConflict_ids [OF m] byIdOk_lookup [OF ok a] byIdOk_lookup [OF ok b]
  show ?thesis by simp
qed

lemma hSep_sym: "hSep a b k = hSep b a k"
  by (simp add: hSep_def Let_def haversineNm_sym [of "pp_lat (trk_points a ! k)"])

lemma vSep_sym: "vSep a b k = vSep b a k"
  by (simp add: vSep_def abs_minus_commute)

lemma breachAt_sym: "breachAt a b H V k = breachAt b a H V k"
  by (simp add: breachAt_def hSep_sym [of a b] vSep_sym [of a b])

lemma pairConflict_length:
  "length (pairConflict a b H V) =
     (if 2 \<le> min (length (trk_points a)) (length (trk_points b))
         \<and> (\<exists>k<min (length (trk_points a)) (length (trk_points b)). breachAt a b H V k)
      then 1 else 0)"
proof (cases "pairConflict a b H V = []")
  case True
  then show ?thesis using pairConflict_none [OF refl, of a b H V] by auto
next
  case False
  from pairConflict_some [OF refl False] pairConflict_none [OF refl, of a b H V] False
  show ?thesis by auto
qed

lemma detect_filter_pair:
  assumes a: "map_of (newMapById tracks) x = Some a"
    and b: "map_of (newMapById tracks) y = Some b"
    and xy: "x \<noteq> y"
  shows "filter (pairIds x y) (pairLoopI (newMapById tracks) H V (map fst (newMapById tracks)))
           = pairConflict a b H V
       \<or> filter (pairIds x y) (pairLoopI (newMapById tracks) H V (map fst (newMapById tracks)))
           = pairConflict b a H V"
proof -
  let ?m = "newMapById tracks"
  have ok: "byIdOk ?m" by (rule byIdOk_new)
  then have d: "distinct (map fst ?m)" by (simp add: byIdOk_def)
  have xin: "x \<in> set (map fst ?m)" using a by (auto dest: map_of_SomeD intro: rev_image_eqI)
  have yin: "y \<in> set (map fst ?m)" using b by (auto dest: map_of_SomeD intro: rev_image_eqI)
  have ia: "trk_id a = x" and ib: "trk_id b = y"
    using byIdOk_lookup [OF ok a] byIdOk_lookup [OF ok b] by simp_all
  have other: "filter (pairIds x y) (pairBody ?m H V u v) = []"
    if "(u, v) \<noteq> (x, y)" "(u, v) \<noteq> (y, x)" for u v
    using that pairBody_ids [OF ok, of _ H V u v]
    by (auto simp: filter_empty_conv pairIds_def)
  have fxy: "filter (pairIds x y) (pairBody ?m H V x y) = pairConflict a b H V"
    using a b ia ib by (auto simp: pairBody_def pairIds_def filter_id_conv dest: pairConflict_ids)
  have fyx: "filter (pairIds x y) (pairBody ?m H V y x) = pairConflict b a H V"
    using a b ia ib by (auto simp: pairBody_def pairIds_def filter_id_conv dest: pairConflict_ids)
  from loopI_filter_pair [OF d xin yin xy, of "pairIds x y" "pairBody ?m H V"] other
  show ?thesis unfolding pairLoopI_loopI fxy fyx by blast
qed

lemma length_filter_sort_key: "length (filter P (sort_key f xs)) = length (filter P xs)"
  by (simp add: filter_sort)

lemma detect_pair_le1:
  assumes "map_of (newMapById tracks) x = Some a"
    and "map_of (newMapById tracks) y = Some b"
    and "x \<noteq> y"
  shows "length (filter (pairIds x y) (detectSeparationConflicts tracks H_NM V_FT)) \<le> 1"
proof -
  have "length (pairConflict a b H_NM V_FT) \<le> 1" "length (pairConflict b a H_NM V_FT) \<le> 1"
    unfolding pairConflict_length by simp_all
  with detect_filter_pair [OF assms, of H_NM V_FT]
  have "length (filter (pairIds x y) (pairLoopI (newMapById tracks) H_NM V_FT (map fst (newMapById tracks)))) \<le> 1"
    by auto
  then show ?thesis
    by (simp add: detectSeparationConflicts_def Let_def length_filter_sort_key)
qed

text \<open>
  Claim C1. Take two different ids of the input and the tracks \<open>a\<close> and \<open>b\<close> the detector
  holds for them, with \<open>n\<close> the smaller of the two sample counts. The detector returns
  exactly one conflict for this unordered pair when \<open>n\<close> is at least 2 and some sample
  \<open>k < n\<close> has horizontal separation below \<open>H_NM\<close> and vertical separation below
  \<open>V_FT\<close> at once; otherwise it returns none for the pair. So breaches that never fall
  on the same sample give no conflict, and neither does a pair with fewer than two common
  samples.
\<close>

theorem detect_pair_iff:
  assumes "map_of (newMapById tracks) x = Some a"
    and "map_of (newMapById tracks) y = Some b"
    and "x \<noteq> y"
  shows "length (filter (pairIds x y) (detectSeparationConflicts tracks H_NM V_FT)) =
           (if 2 \<le> min (length (trk_points a)) (length (trk_points b))
               \<and> (\<exists>k<min (length (trk_points a)) (length (trk_points b)).
                      hSep a b k < H_NM \<and> vSep a b k < V_FT)
            then 1 else 0)"
proof -
  have sym: "length (pairConflict b a H_NM V_FT) = length (pairConflict a b H_NM V_FT)"
    unfolding pairConflict_length by (simp add: breachAt_sym [of a b] min.commute)
  from detect_filter_pair [OF assms, of H_NM V_FT]
  have "length (filter (pairIds x y) (pairLoopI (newMapById tracks) H_NM V_FT (map fst (newMapById tracks))))
          = length (pairConflict a b H_NM V_FT)"
    using sym by auto
  then show ?thesis
    by (simp add: detectSeparationConflicts_def Let_def length_filter_sort_key
        pairConflict_length breachAt_def)
qed



section \<open>The example tracks\<close>

lemma haversineNm_antipode: "haversineNm 0 0 0 180 = halfTurnNm"
  by (simp add: haversineNm_def haversineA_def toRad_def atan2_def halfTurnNm_def)

lemma far_apart: "\<not> halfTurnNm < 5" "0 < halfTurnNm" "\<not> halfTurnNm < 0"
  using pi_ge_two by (simp_all add: halfTurnNm_def)

lemma hSep_AB: "hSep trackA trackB 0 = halfTurnNm" "hSep trackA trackB (Suc 0) = 0"
  "hSep trackA trackB 2 = 0" "hSep trackA trackB (Suc (Suc 0)) = 0"
  by (simp_all add: hSep_def trackA_def trackB_def exPt_def haversineNm_antipode haversineNm_same)

lemma vSep_AB: "vSep trackA trackB 0 = 0" "vSep trackA trackB (Suc 0) = 2000" "vSep trackA trackB 2 = 500"
  "vSep trackA trackB (Suc (Suc 0)) = 500"
  by (simp_all add: vSep_def trackA_def trackB_def exPt_def altOr0_def)

lemma hSep_AC: "hSep trackA trackC 0 = halfTurnNm" "hSep trackA trackC (Suc 0) = 0"
  by (simp_all add: hSep_def trackA_def trackC_def exPt_def haversineNm_antipode haversineNm_same)

lemma vSep_AC: "vSep trackA trackC 0 = 0" "vSep trackA trackC (Suc 0) = 2000"
  by (simp_all add: vSep_def trackA_def trackC_def exPt_def altOr0_def)

lemma len_ABC: "length (trk_points trackA) = 3" "length (trk_points trackB) = 3"
  "length (trk_points trackC) = 2"
  by (simp_all add: trackA_def trackB_def trackC_def)

lemma ids_ABC: "trk_id trackA = ''A''" "trk_id trackB = ''B''" "trk_id trackC = ''C''"
  by (simp_all add: trackA_def trackB_def trackC_def)

lemma map_ABC: "newMapById [trackA, trackB, trackC] = [(''A'', trackA), (''B'', trackB), (''C'', trackC)]"
  by (simp add: newMapById_def ids_ABC)


lemma steps_AB: "stepSeconds trackA = 60" "stepSeconds trackB = 60"
  by (simp_all add: stepSeconds_def stepOffset_def nthOpt_def tsOr0_def trackA_def trackB_def exPt_def)

lemma walk_AB: "walkPair trackA trackB 5 1000 3
   = \<lparr>minH = Some 0, minV = Some 2000, minIdx = 1, firstBreachIdx = Some 2\<rparr>"
  by (simp add: walkPair_def walkStep_def walkInit_def belowMin_def Let_def hSep_AB vSep_AB
      numeral_3_eq_3 far_apart)


theorem detect_pair_iff_witness:
  "length (filter (pairIds ''A'' ''B'') (detectSeparationConflicts [trackA, trackB, trackC] 5 1000)) = 1
   \<and> length (filter (pairIds ''A'' ''C'') (detectSeparationConflicts [trackA, trackB, trackC] 5 1000)) = 0"
proof -
  have a: "map_of (newMapById [trackA, trackB, trackC]) ''A'' = Some trackA"
    and b: "map_of (newMapById [trackA, trackB, trackC]) ''B'' = Some trackB"
    and c: "map_of (newMapById [trackA, trackB, trackC]) ''C'' = Some trackC"
    by (simp_all add: map_ABC)
  have ab: "''A'' \<noteq> ''B''" and ac: "''A'' \<noteq> ''C''" by simp_all
  have yes: "\<exists>k<3. hSep trackA trackB k < 5 \<and> vSep trackA trackB k < 1000"
    by (rule exI [of _ 2]) (simp add: hSep_AB vSep_AB)
  have no: "\<not> (\<exists>k<2. hSep trackA trackC k < 5 \<and> vSep trackA trackC k < 1000)"
  proof -
    have "\<not> (hSep trackA trackC k < 5 \<and> vSep trackA trackC k < 1000)" if "k < 2" for k
    proof -
      from that consider "k = 0" | "k = Suc 0" by linarith
      then show ?thesis by cases (simp_all add: hSep_AC vSep_AC far_apart)
    qed
    then show ?thesis by blast
  qed
  show ?thesis
    using detect_pair_iff [OF a b ab, of 5 1000] detect_pair_iff [OF a c ac, of 5 1000] yes no
    by (simp add: len_ABC)
qed


section \<open>Wake alerts\<close>


lemma wakeLoopJ_loopJ: "wakeLoopJ t A rest = loopJ (wakePair t) A rest"
  by (induction rest) simp_all

lemma wakeLoopI_loopI: "wakeLoopI t ac = loopI (wakePair t) ac"
  by (induction ac) (simp_all add: wakeLoopJ_loopJ)



lemma wakePair_mem:
  "al \<in> set (wakePair t A B) \<Longrightarrow> al_type al = wake \<and> al_involvedAircraftIds al = [ac_id A, ac_id B]"
  by (auto simp: wakePair_def Let_def split: if_splits)






lemma atan2_sin_cos: "0 \<le> x \<Longrightarrow> x < pi / 2 \<Longrightarrow> atan2 (sin x) (cos x) = x"
proof -
  assume x: "0 \<le> x" "x < pi / 2"
  then have c: "0 < cos x" by (simp add: cos_gt_zero_pi)
  have "arctan (sin x / cos x) = arctan (tan x)" by (simp add: tan_def)
  also have "\<dots> = x" using x by (intro arctan_tan) auto
  finally show ?thesis using c by (simp add: atan2_def)
qed

lemma haversineNm_meridian:
  assumes "0 \<le> lat2 - lat1" "lat2 - lat1 < 180"
  shows "haversineNm lat1 lon lat2 lon = 6371000 * toRad (lat2 - lat1) / 1852"
proof -
  let ?x = "toRad (lat2 - lat1) / 2"
  have x0: "0 \<le> ?x" using assms(1) by (simp add: toRad_def)
  have "toRad (lat2 - lat1) < toRad 180" using assms(2) by (simp only: toRad_less)
  then have x1: "?x < pi / 2" by (simp add: toRad_def)
  have s: "0 \<le> sin ?x" using x0 x1 by (intro sin_ge_zero) auto
  have c: "0 \<le> cos ?x" using x0 x1 by (intro cos_ge_zero) auto
  have A: "haversineA lat1 lon lat2 lon = (sin ?x)\<^sup>2"
    by (simp add: haversineA_def toRad_def)
  have "sqrt (haversineA lat1 lon lat2 lon) = sin ?x"
    unfolding A using s by simp
  moreover have "sqrt (1 - haversineA lat1 lon lat2 lon) = cos ?x"
    unfolding A using c by (simp add: cos_squared_eq [symmetric])
  ultimately show ?thesis
    using atan2_sin_cos [OF x0 x1] by (simp add: haversineNm_def)
qed

lemma wakeDist_AB: "wakeDist wakeA wakeB = pi / 2"
proof -
  have "haversineNm 0 0 (4167 / 159275) 0 = 6371000 * toRad (4167 / 159275 - 0) / 1852"
    by (rule haversineNm_meridian) simp_all
  also have "\<dots> = pi / 2" by (simp add: toRad_def)
  finally show ?thesis by (simp add: wakeDist_def wakeA_def wakeB_def exAc_def)
qed


lemma truncq_small: "- 1 < z \<Longrightarrow> z < 1 \<Longrightarrow> truncq z = 0"
  unfolding truncq_def by (auto simp: floor_eq_iff ceiling_eq_iff)

lemma truncq_one: "1 \<le> z \<Longrightarrow> z < 2 \<Longrightarrow> truncq z = 1"
  unfolding truncq_def by (auto simp: floor_eq_iff)

lemma jsMod_small: "0 < y \<Longrightarrow> - y < x \<Longrightarrow> x < y \<Longrightarrow> jsMod x y = x"
  by (simp add: jsMod_def truncq_small field_simps)

lemma jsMod_once: "0 < y \<Longrightarrow> y \<le> x \<Longrightarrow> x < 2 * y \<Longrightarrow> jsMod x y = x - y"
  by (simp add: jsMod_def truncq_one field_simps)

lemma normDeg_id: "- 180 < d \<Longrightarrow> d \<le> 180 \<Longrightarrow> normDeg d = d"
proof -
  assume d: "- 180 < d" "d \<le> 180"
  have m: "jsMod d 360 = d" using d by (intro jsMod_small) auto
  show ?thesis
  proof (cases "0 \<le> d")
    case True
    then have "jsMod (d + 360) 360 = d" using d jsMod_once [of 360 "d + 360"] by simp
    with d m show ?thesis by (simp add: normDeg_def)
  next
    case False
    then have "jsMod (d + 360) 360 = d + 360" using d by (intro jsMod_small) auto
    with False d m show ?thesis by (simp add: normDeg_def)
  qed
qed

lemma normDeg_examples: "normDeg (- 10) = - 10" "normDeg (- 40) = - 40"
  by (simp_all add: normDeg_id)

lemma wakeDh_examples: "wakeDh wakeA wakeB = 10" "wakeDh wakeA wakeC = 40"
  by (simp_all add: wakeDh_def trackOr0_def wakeA_def wakeB_def wakeC_def exAc_def normDeg_examples)

lemma wakeDv_examples: "wakeDv wakeA wakeB = 300" "wakeDv wakeA wakeC = 200"
  by (simp_all add: wakeDv_def wakeA_def wakeB_def wakeC_def exAc_def)


section \<open>Weather sampling\<close>

lemma weatherLoop_asked:
  "snd (weatherLoop g t ts cands) = map (\<lambda>a. (ac_lat a, ac_lon a, t)) cands"
  by (induction cands) (auto simp: Let_def split: prod.splits)

text \<open>
  Claim C5, as amended. With a weather time \<open>t\<close>, the weather family asks the radar
  service exactly for the first 30 aircraft, in snapshot order, among those within 120 NM
  of the reference point; with no weather time it asks nothing; in every case it asks at
  most 30 times.
\<close>

theorem weather_queries:
  "snd (buildWeatherAlerts g ac timeMs (Some t))
      = map (\<lambda>a. (ac_lat a, ac_lon a, t)) (take 30 (filter (withinCenter 120) ac))
   \<and> snd (buildWeatherAlerts g ac timeMs None) = []
   \<and> length (snd (buildWeatherAlerts g ac timeMs timeISO)) \<le> 30"
  by (cases timeISO) (simp_all add: buildWeatherAlerts_def weatherCandidates_def weatherLoop_asked)

lemma center_dist_near: "haversineNm (fst DEFAULT_CENTER) (snd DEFAULT_CENTER) (ac_lat wxNear) (ac_lon wxNear) = 0"
  by (simp add: DEFAULT_CENTER_def wxNear_def haversineNm_same)

lemma center_dist_far: "haversineNm (fst DEFAULT_CENTER) (snd DEFAULT_CENTER) (ac_lat (wxFar i)) (ac_lon (wxFar i)) = pi"
proof -
  have "haversineNm 45.5019 (- 73.5674) (45.5019 + 8334 / 159275) (- 73.5674)
          = 6371000 * toRad (45.5019 + 8334 / 159275 - 45.5019) / 1852"
    by (rule haversineNm_meridian) simp_all
  also have "\<dots> = pi" by (simp add: toRad_def)
  finally show ?thesis by (simp add: DEFAULT_CENTER_def wxFar_def)
qed

lemma within_far: "withinCenter 120 (wxFar i)"
  using pi_less_4 by (simp add: withinCenter_def center_dist_far)

lemma within_near: "withinCenter 120 wxNear"
  by (simp add: withinCenter_def center_dist_near)

lemma candidates_fleet: "weatherCandidates wxFleet = map wxFar [0 ..< 30]"
proof -
  have "filter (withinCenter 120) (map wxFar [0 ..< 30]) = map wxFar [0 ..< 30]"
    by (simp add: filter_id_conv within_far)
  then show ?thesis by (simp add: weatherCandidates_def wxFleet_def within_near)
qed

text \<open>
  The candidates are not ordered by distance: in the fleet of thirty-one, the aircraft at
  the reference point itself is a candidate and the nearest one, and it is not sampled,
  while thirty aircraft \<open>pi\<close> nautical miles away are.
\<close>

theorem weather_nearest_counterexample:
  "snd (buildWeatherAlerts noRadar wxFleet 0 (Some 0))
      = replicate 30 (45.5019 + 8334 / 159275, - 73.5674, 0)
   \<and> wxNear \<in> set wxFleet
   \<and> withinCenter 120 wxNear
   \<and> haversineNm (fst DEFAULT_CENTER) (snd DEFAULT_CENTER) (ac_lat wxNear) (ac_lon wxNear) = 0
   \<and> (ac_lat wxNear, ac_lon wxNear, 0) \<notin> set (snd (buildWeatherAlerts noRadar wxFleet 0 (Some 0)))
   \<and> haversineNm (fst DEFAULT_CENTER) (snd DEFAULT_CENTER) (ac_lat (wxFar 0)) (ac_lon (wxFar 0)) = pi"
proof -
  have q: "snd (buildWeatherAlerts noRadar wxFleet 0 (Some 0))
      = replicate 30 (45.5019 + 8334 / 159275, - 73.5674, 0)"
    by (simp add: buildWeatherAlerts_def candidates_fleet weatherLoop_asked wxFar_def comp_def
        map_replicate_const)
  have m: "wxNear \<in> set wxFleet" by (simp add: wxFleet_def)
  have n: "(ac_lat wxNear, ac_lon wxNear, 0) \<notin> set (replicate 30 (45.5019 + 8334 / 159275, - 73.5674, 0::real))"
    by (simp add: wxNear_def)
  from q m n within_near center_dist_near center_dist_far [of 0] show ?thesis
    by (simp only: simp_thms)
qed

section \<open>Alert families\<close>

lemma weatherAlert_mem:
  "al \<in> set (weatherAlert ts a r) \<Longrightarrow> al_type al = weather \<and> al_involvedAircraftIds al = [ac_id a]"
  by (auto simp: weatherAlert_def split: option.splits if_splits)

lemma weatherLoop_mem:
  "al \<in> set (fst (weatherLoop g t ts cands))
     \<Longrightarrow> al_type al = weather \<and> (\<exists>a \<in> set cands. al_involvedAircraftIds al = [ac_id a])"
proof (induction cands)
  case Nil
  then show ?case by simp
next
  case (Cons a cands)
  then show ?case
    by (auto simp: Let_def split: prod.splits dest: weatherAlert_mem)
qed

lemma buildWeatherAlerts_mem:
  "al \<in> set (fst (buildWeatherAlerts g ac timeMs timeISO))
     \<Longrightarrow> al_type al = weather \<and> length (al_involvedAircraftIds al) = 1"
  by (cases timeISO) (auto simp: buildWeatherAlerts_def dest: weatherLoop_mem)

lemma verticalAlert_mem:
  "al \<in> set (verticalAlert t a) \<Longrightarrow> al_type al = vertical \<and> al_involvedAircraftIds al = [ac_id a]"
  by (auto simp: verticalAlert_def Let_def split: if_splits)

lemma congestionAlert_mem:
  "al \<in> set (congestionAlert t ac)
     \<Longrightarrow> al_type al = congestion \<and> 10 \<le> length (al_involvedAircraftIds al)"
  by (auto simp: congestionAlert_def Let_def split: if_splits)

lemma wakeLoopI_mem:
  "al \<in> set (wakeLoopI t ac) \<Longrightarrow> al_type al = wake \<and> length (al_involvedAircraftIds al) = 2"
  unfolding wakeLoopI_loopI by (auto dest!: loopI_mem wakePair_mem)

lemma buildLocalAlerts_mem:
  "al \<in> set (buildLocalAlerts ac nowMs) \<Longrightarrow>
     (al_type al = vertical \<and> length (al_involvedAircraftIds al) = 1)
   \<or> (al_type al = congestion \<and> 10 \<le> length (al_involvedAircraftIds al))
   \<or> (al_type al = wake \<and> length (al_involvedAircraftIds al) = 2)"
  by (auto simp: buildLocalAlerts_def Let_def dest: verticalAlert_mem congestionAlert_mem wakeLoopI_mem)


lemma detect_nil: "detectSeparationConflicts [] H V = []"
  by (simp add: detectSeparationConflicts_def newMapById_def)

lemma recompute_alerts:
  "st_alerts (recompute now proj g ac timeMs s) =
     map (sepAlert \<lfloor>timeMs / 1000\<rfloor>)
         (detectSeparationConflicts (case proj ac of Inr p \<Rightarrow> p | Inl e \<Rightarrow> []) 5 1000)
     @ fst (buildWeatherAlerts g ac timeMs (st_weatherTimeISO s))
     @ buildLocalAlerts ac timeMs"
  by (simp add: recompute_def Let_def)

lemma recompute_tracks:
  "st_tracks (recompute now proj g ac timeMs s) = (case proj ac of Inr p \<Rightarrow> p | Inl e \<Rightarrow> [])"
  by (simp add: recompute_def Let_def)

section \<open>One tick\<close>

text \<open>
  Claim C8. When the projector fails, the pass still ends in a state: its track set is
  empty whatever the state held before, it has no separation alert, its alerts are the
  weather alerts followed by the local alerts, and the whole state is the one a projector
  answering with no tracks would have given.
\<close>

theorem projector_failure_degrades:
  assumes "projectTracks ac = Inl e"
  shows "st_tracks (recompute now projectTracks g ac timeMs s) = []
       \<and> filter isSeparation (st_alerts (recompute now projectTracks g ac timeMs s)) = []
       \<and> st_alerts (recompute now projectTracks g ac timeMs s)
           = fst (buildWeatherAlerts g ac timeMs (st_weatherTimeISO s)) @ buildLocalAlerts ac timeMs
       \<and> recompute now projectTracks g ac timeMs s = recompute now projectorEmpty g ac timeMs s"
proof -
  have al: "st_alerts (recompute now projectTracks g ac timeMs s)
      = fst (buildWeatherAlerts g ac timeMs (st_weatherTimeISO s)) @ buildLocalAlerts ac timeMs"
    using assms by (simp add: recompute_alerts detect_nil)
  have "\<not> isSeparation x" if "x \<in> set (st_alerts (recompute now projectTracks g ac timeMs s))" for x
    using that unfolding al isSeparation_def
    by (auto dest: buildWeatherAlerts_mem buildLocalAlerts_mem)
  then have "filter isSeparation (st_alerts (recompute now projectTracks g ac timeMs s)) = []"
    by (simp add: filter_empty_conv)
  moreover have "st_tracks (recompute now projectTracks g ac timeMs s) = []"
    using assms by (simp add: recompute_tracks)
  moreover have "recompute now projectTracks g ac timeMs s = recompute now projectorEmpty g ac timeMs s"
    using assms by (simp add: recompute_def projectorEmpty_def)
  ultimately show ?thesis using al by simp
qed


lemma local_in_alerts:
  "al \<in> set (buildLocalAlerts ac timeMs) \<Longrightarrow> al \<in> set (st_alerts (recompute now proj g ac timeMs s))"
  by (simp add: recompute_alerts)

lemma wakePair_AB: "wakePair 0 wakeA wakeB = [wakeAlertAB]"
  using pi_ge_two pi_less_4
  by (simp add: wakePair_def Let_def wakeDist_AB wakeDv_examples wakeDh_examples wakeAlertAB_def)
    (simp add: wakeA_def wakeB_def exAc_def)

lemma wakeAlertAB_local: "wakeAlertAB \<in> set (buildLocalAlerts [wakeA, wakeB, wakeC] 0)"
  by (simp add: buildLocalAlerts_def wakePair_AB)







theorem projector_failure_degrades_witness:
  "st_tracks (recompute 0 projectorDown noRadar [wakeA, wakeB, wakeC] 0 (initialState\<lparr>st_tracks := [trackA, trackB]\<rparr>)) = []
   \<and> filter isSeparation (st_alerts (recompute 0 projectorDown noRadar [wakeA, wakeB, wakeC] 0 (initialState\<lparr>st_tracks := [trackA, trackB]\<rparr>))) = []
   \<and> wakeAlertAB \<in> set (st_alerts (recompute 0 projectorDown noRadar [wakeA, wakeB, wakeC] 0 (initialState\<lparr>st_tracks := [trackA, trackB]\<rparr>)))"
proof -
  have f: "projectorDown [wakeA, wakeB, wakeC] = Inl ''Project failed: 503''"
    by (simp add: projectorDown_def)
  note r = projector_failure_degrades [of projectorDown "[wakeA, wakeB, wakeC]" "''Project failed: 503''"
      0 noRadar 0 "initialState\<lparr>st_tracks := [trackA, trackB]\<rparr>", OF f]
  from r have t: "st_tracks (recompute 0 projectorDown noRadar [wakeA, wakeB, wakeC] 0 (initialState\<lparr>st_tracks := [trackA, trackB]\<rparr>)) = []"
    by blast
  from r have sp: "filter isSeparation (st_alerts (recompute 0 projectorDown noRadar [wakeA, wakeB, wakeC] 0 (initialState\<lparr>st_tracks := [trackA, trackB]\<rparr>))) = []"
    by blast
  have m: "wakeAlertAB \<in> set (st_alerts (recompute 0 projectorDown noRadar [wakeA, wakeB, wakeC] 0 (initialState\<lparr>st_tracks := [trackA, trackB]\<rparr>)))"
    by (rule local_in_alerts [OF wakeAlertAB_local])
  from t sp m show ?thesis by blast
qed

section \<open>Trail history\<close>

lemma evictFront_dropWhile: "evictFront c ps = dropWhile (\<lambda>p. tp_ts p < c) ps"
  by (induction ps) simp_all

lemma evictFront_sorted:
  "sorted (map tp_ts ps) \<Longrightarrow> evictFront c ps = filter (\<lambda>p. c \<le> tp_ts p) ps"
proof (induction ps)
  case Nil
  then show ?case by simp
next
  case (Cons p ps)
  show ?case
  proof (cases "tp_ts p < c")
    case True
    with Cons show ?thesis by simp
  next
    case False
    with Cons.prems have "\<forall>q \<in> set (p # ps). c \<le> tp_ts q" by auto
    then have "filter (\<lambda>p. c \<le> tp_ts p) (p # ps) = p # ps"
      by (simp only: filter_id_conv) 
    with False show ?thesis by simp
  qed
qed

lemma historyStep_lookup:
  "map_of (historyStep now a m) x =
     (if x = ac_id a
      then Some \<lparr>he_callsign = (case ac_callsign a of Some c \<Rightarrow> Some c
                                | None \<Rightarrow> (case map_of m (ac_id a) of None \<Rightarrow> ac_callsign a | Some e \<Rightarrow> he_callsign e)),
                he_points = evictFront (now - TRAIL_WINDOW_MS) (pointsOf m (ac_id a) @ [newTrailPoint now a])\<rparr>
      else map_of m x)"
  by (cases "map_of m (ac_id a)"; cases "ac_callsign a")
    (simp_all add: historyStep_def Let_def update_conv' pointsOf_def)

lemma updateHistory_frame:
  "x \<notin> ac_id ` set ac \<Longrightarrow> map_of (updateHistory now ac m) x = map_of m x"
  unfolding updateHistory_def
  by (induction ac arbitrary: m) (simp_all add: historyStep_lookup)

lemma updateHistory_points:
  "distinct (map ac_id ac) \<Longrightarrow> a \<in> set ac \<Longrightarrow>
     pointsOf (updateHistory now ac m) (ac_id a)
       = evictFront (now - TRAIL_WINDOW_MS) (pointsOf m (ac_id a) @ [newTrailPoint now a])"
proof (induction ac arbitrary: m)
  case Nil
  then show ?case by simp
next
  case (Cons u ac)
  show ?case
  proof (cases "a = u")
    case True
    with Cons.prems have "ac_id u \<notin> ac_id ` set ac" by simp
    then have "map_of (updateHistory now ac (historyStep now u m)) (ac_id u)
                 = map_of (historyStep now u m) (ac_id u)"
      by (rule updateHistory_frame)
    with True show ?thesis
      by (simp add: updateHistory_def pointsOf_def historyStep_lookup)
  next
    case False
    with Cons.prems have a: "a \<in> set ac" and d: "distinct (map ac_id ac)"
      by auto
    from Cons.prems a have ne: "ac_id a \<noteq> ac_id u"
      by (auto simp: image_iff)
    have "pointsOf (historyStep now u m) (ac_id a) = pointsOf m (ac_id a)"
      using ne by (simp add: pointsOf_def historyStep_lookup)
    with Cons.IH [OF d a, of "historyStep now u m"] show ?thesis
      by (simp add: updateHistory_def)
  qed
qed

lemma newTrailPoint_ts: "tp_ts (newTrailPoint now a) = now"
  by (simp add: newTrailPoint_def)

lemma window_pos: "0 < TRAIL_WINDOW_MS"
  by (simp add: TRAIL_WINDOW_MS_def)

text \<open>
  Claim C10. Take a snapshot whose aircraft ids are all different and a history in which
  the buffer of every aircraft of the snapshot is in time order and not later than the
  clock reading \<open>now\<close>. After the update, the buffer of every aircraft of the snapshot is
  its old buffer without the points older than \<open>now\<close> minus the five-minute window,
  followed by exactly one new point for this sighting; and for every id that is not in the
  snapshot the history holds exactly what it held before.
\<close>

theorem history_update:
  assumes d: "distinct (map ac_id ac)"
    and o: "\<forall>a \<in> set ac. trailOrdered now m (ac_id a)"
  shows "(\<forall>a \<in> set ac.
            pointsOf (updateHistory now ac m) (ac_id a)
              = filter (\<lambda>p. now - TRAIL_WINDOW_MS \<le> tp_ts p) (pointsOf m (ac_id a)) @ [newTrailPoint now a])
       \<and> (\<forall>x. x \<notin> ac_id ` set ac \<longrightarrow> map_of (updateHistory now ac m) x = map_of m x)"
proof (intro conjI ballI allI impI)
  fix a assume a: "a \<in> set ac"
  with o have s: "sorted (map tp_ts (pointsOf m (ac_id a)))"
    and le: "\<forall>p \<in> set (pointsOf m (ac_id a)). tp_ts p \<le> now"
    by (auto simp: trailOrdered_def list_all_iff)
  have "sorted (map tp_ts (pointsOf m (ac_id a) @ [newTrailPoint now a]))"
    using s le by (simp add: sorted_append newTrailPoint_ts)
  then have "evictFront (now - TRAIL_WINDOW_MS) (pointsOf m (ac_id a) @ [newTrailPoint now a])
      = filter (\<lambda>p. now - TRAIL_WINDOW_MS \<le> tp_ts p) (pointsOf m (ac_id a) @ [newTrailPoint now a])"
    by (rule evictFront_sorted)
  also have "\<dots> = filter (\<lambda>p. now - TRAIL_WINDOW_MS \<le> tp_ts p) (pointsOf m (ac_id a)) @ [newTrailPoint now a]"
    using window_pos by (simp add: newTrailPoint_ts)
  finally show "pointsOf (updateHistory now ac m) (ac_id a)
      = filter (\<lambda>p. now - TRAIL_WINDOW_MS \<le> tp_ts p) (pointsOf m (ac_id a)) @ [newTrailPoint now a]"
    using updateHistory_points [OF d a, of now m] by simp
next
  fix x assume "x \<notin> ac_id ` set ac"
  then show "map_of (updateHistory now ac m) x = map_of m x"
    by (rule updateHistory_frame)
qed

text \<open>
  The order of the buffers holds for the empty history and is kept by every update whose
  clock reading is not earlier than the last one.
\<close>

lemma trailOrdered_later: "trailOrdered now m x \<Longrightarrow> now \<le> now' \<Longrightarrow> trailOrdered now' m x"
  by (auto simp: trailOrdered_def list_all_iff)

lemma trailOrdered_step: "trailOrdered now m x \<Longrightarrow> trailOrdered now (historyStep now u m) x"
proof (cases "x = ac_id u")
  case False
  assume "trailOrdered now m x"
  with False show ?thesis
    by (simp add: trailOrdered_def pointsOf_def historyStep_lookup)
next
  case True
  assume o: "trailOrdered now m x"
  let ?ps = "pointsOf m (ac_id u) @ [newTrailPoint now u]"
  from o True have s: "sorted (map tp_ts ?ps)" and le: "\<forall>p \<in> set ?ps. tp_ts p \<le> now"
    by (auto simp: trailOrdered_def list_all_iff sorted_append newTrailPoint_ts)
  have e: "evictFront (now - TRAIL_WINDOW_MS) ?ps = filter (\<lambda>p. now - TRAIL_WINDOW_MS \<le> tp_ts p) ?ps"
    using s by (rule evictFront_sorted)
  have "sorted (map tp_ts (filter (\<lambda>p. now - TRAIL_WINDOW_MS \<le> tp_ts p) ?ps))"
    using s by (simp only: filter_map [symmetric, unfolded comp_def] sorted_map sorted_wrt_filter)
  moreover have "\<forall>p \<in> set (filter (\<lambda>p. now - TRAIL_WINDOW_MS \<le> tp_ts p) ?ps). tp_ts p \<le> now"
    using le by simp
  moreover have "pointsOf (historyStep now u m) x = filter (\<lambda>p. now - TRAIL_WINDOW_MS \<le> tp_ts p) ?ps"
    using True e by (simp add: pointsOf_def historyStep_lookup)
  ultimately show ?thesis
    by (simp only: trailOrdered_def list_all_iff)
qed

lemma trailOrdered_update: "trailOrdered now m x \<Longrightarrow> trailOrdered now (updateHistory now ac m) x"
  unfolding updateHistory_def
  by (induction ac arbitrary: m) (simp_all add: trailOrdered_step)

lemma trailOrdered_kept:
  "trailOrdered now m x \<Longrightarrow> now \<le> now' \<Longrightarrow> trailOrdered now' (updateHistory now' ac m) x"
  by (rule trailOrdered_update [OF trailOrdered_later])

lemma trailOrdered_empty: "trailOrdered now [] x"
  by (simp add: trailOrdered_def pointsOf_def)

theorem history_update_witness:
  "pointsOf (updateHistory 400000 [wakeA, wakeB] exHistory) ''W1'' = [still 250000, newTrailPoint 400000 wakeA]
   \<and> pointsOf (updateHistory 400000 [wakeA, wakeB] exHistory) ''W2'' = [newTrailPoint 400000 wakeB]
   \<and> map_of (updateHistory 400000 [wakeA, wakeB] exHistory) ''Z9'' = map_of exHistory ''Z9''"
proof -
  have ids: "ac_id wakeA = ''W1''" "ac_id wakeB = ''W2''"
    by (simp_all add: wakeA_def wakeB_def exAc_def)
  have d: "distinct (map ac_id [wakeA, wakeB])" by (simp add: ids)
  have p: "pointsOf exHistory ''W1'' = [still 0, still 250000]" "pointsOf exHistory ''W2'' = []"
    by (simp_all add: pointsOf_def exHistory_def)
  have o: "\<forall>a \<in> set [wakeA, wakeB]. trailOrdered 400000 exHistory (ac_id a)"
    by (simp add: trailOrdered_def ids p still_def)
  have z: "''Z9'' \<notin> ac_id ` set [wakeA, wakeB]" by (simp add: ids)
  from history_update [OF d o] z show ?thesis
    by (simp add: ids p still_def TRAIL_WINDOW_MS_def)
qed

section \<open>Selection across ticks\<close>

lemma bar_split:
  "CHR ''|'' \<notin> set a \<Longrightarrow> CHR ''|'' \<notin> set c \<Longrightarrow> a @ ''|'' @ b = c @ ''|'' @ d \<Longrightarrow> a = c \<and> b = d"
proof (induction a arbitrary: c)
  case Nil
  then show ?case by (cases c) auto
next
  case (Cons x a)
  then show ?case by (cases c) auto
qed

lemma conflictKey_pair:
  assumes "CHR ''|'' \<notin> set (a_id c)" "CHR ''|'' \<notin> set (b_id c)"
    "CHR ''|'' \<notin> set (a_id d)" "CHR ''|'' \<notin> set (b_id d)"
    and "conflictKey c = conflictKey d"
  shows "pairIds (a_id c) (b_id c) d"
proof -
  have key: "conflictKey x = (if a_id x < b_id x then a_id x @ ''|'' @ b_id x else b_id x @ ''|'' @ a_id x)" for x
    by (simp add: conflictKey_def Let_def)
  consider (ll) "a_id c < b_id c" "a_id d < b_id d" | (lr) "a_id c < b_id c" "\<not> a_id d < b_id d"
    | (rl) "\<not> a_id c < b_id c" "a_id d < b_id d" | (rr) "\<not> a_id c < b_id c" "\<not> a_id d < b_id d"
    by blast
  then show ?thesis
  proof cases
    case ll
    with assms(5) have "a_id c @ ''|'' @ b_id c = a_id d @ ''|'' @ b_id d" by (simp add: key)
    from bar_split [OF assms(1) assms(3) this] show ?thesis by (simp add: pairIds_def)
  next
    case lr
    with assms(5) have "a_id c @ ''|'' @ b_id c = b_id d @ ''|'' @ a_id d" by (simp add: key)
    from bar_split [OF assms(1) assms(4) this] show ?thesis by (simp add: pairIds_def)
  next
    case rl
    with assms(5) have "b_id c @ ''|'' @ a_id c = a_id d @ ''|'' @ b_id d" by (simp add: key)
    from bar_split [OF assms(2) assms(3) this] show ?thesis by (simp add: pairIds_def)
  next
    case rr
    with assms(5) have "b_id c @ ''|'' @ a_id c = b_id d @ ''|'' @ a_id d" by (simp add: key)
    from bar_split [OF assms(2) assms(4) this] show ?thesis by (simp add: pairIds_def)
  qed
qed

lemma loopI_mem_distinct:
  "distinct us \<Longrightarrow> c \<in> set (loopI f us) \<Longrightarrow> \<exists>u\<in>set us. \<exists>v\<in>set us. u \<noteq> v \<and> c \<in> set (f u v)"
proof (induction us)
  case Nil
  then show ?case by simp
next
  case (Cons u us)
  from Cons.prems have nu: "u \<notin> set us" and d: "distinct us" by simp_all
  from Cons.prems(2) consider "c \<in> set (loopJ f u us)" | "c \<in> set (loopI f us)" by auto
  then show ?case
  proof cases
    case 1
    then obtain v where v: "v \<in> set us" "c \<in> set (f u v)" by (auto simp: loopJ_mem)
    with nu have "u \<noteq> v" by auto
    with v show ?thesis by auto
  next
    case 2
    from Cons.IH [OF d 2] show ?thesis by auto
  qed
qed

lemma detect_mem:
  assumes "c \<in> set (detectSeparationConflicts tracks H V)"
  shows "\<exists>a b. map_of (newMapById tracks) (a_id c) = Some a
             \<and> map_of (newMapById tracks) (b_id c) = Some b \<and> a_id c \<noteq> b_id c
             \<and> a_id c \<in> trk_id ` set tracks \<and> b_id c \<in> trk_id ` set tracks"
proof -
  let ?m = "newMapById tracks"
  have ok: "byIdOk ?m" by (rule byIdOk_new)
  then have d: "distinct (map fst ?m)" by (simp add: byIdOk_def)
  from assms have "c \<in> set (loopI (pairBody ?m H V) (map fst ?m))"
    by (simp add: detectSeparationConflicts_def Let_def pairLoopI_loopI)
  from loopI_mem_distinct [OF d this] obtain u v where
    uv: "u \<in> set (map fst ?m)" "v \<in> set (map fst ?m)" "u \<noteq> v" and cb: "c \<in> set (pairBody ?m H V u v)"
    by blast
  from cb obtain a b where a: "map_of ?m u = Some a" and b: "map_of ?m v = Some b"
    by (cases "map_of ?m u"; cases "map_of ?m v") (auto simp: pairBody_def)
  from pairBody_ids [OF ok cb] have ids: "a_id c = u" "b_id c = v" by simp_all
  from uv have "u \<in> trk_id ` set tracks" "v \<in> trk_id ` set tracks"
    by (simp_all only: newMapById_keys)
  with a b ids uv(3) show ?thesis by auto
qed

lemma length_filter_mono:
  "(\<And>x. x \<in> set xs \<Longrightarrow> P x \<Longrightarrow> Q x) \<Longrightarrow> length (filter P xs) \<le> length (filter Q xs)"
proof (induction xs)
  case Nil
  then show ?case by simp
next
  case (Cons x xs)
  then show ?case by auto
qed

lemma distinct_map_by_count:
  "(\<And>c. c \<in> set xs \<Longrightarrow> length (filter (\<lambda>d. f d = f c) xs) \<le> 1) \<Longrightarrow> distinct (map f xs)"
proof (induction xs)
  case Nil
  then show ?case by simp
next
  case (Cons x xs)
  from Cons.prems [of x] have "filter (\<lambda>d. f d = f x) xs = []" by simp
  then have nx: "f x \<notin> f ` set xs" by (auto simp: filter_empty_conv)
  have "distinct (map f xs)"
  proof (rule Cons.IH)
    fix c assume c: "c \<in> set xs"
    have "length (filter (\<lambda>d. f d = f c) xs) \<le> length (filter (\<lambda>d. f d = f c) (x # xs))" by simp
    also have "\<dots> \<le> 1" using c by (intro Cons.prems) simp
    finally show "length (filter (\<lambda>d. f d = f c) xs) \<le> 1" .
  qed
  with nx show ?case by simp
qed

lemma detect_keys_distinct:
  assumes nb: "\<forall>t \<in> set tracks. CHR ''|'' \<notin> set (trk_id t)"
  shows "distinct (map conflictKey (detectSeparationConflicts tracks H V))"
proof (rule distinct_map_by_count)
  let ?sep = "detectSeparationConflicts tracks H V"
  fix c assume c: "c \<in> set ?sep"
  from detect_mem [OF c] obtain a b where
    a: "map_of (newMapById tracks) (a_id c) = Some a" and b: "map_of (newMapById tracks) (b_id c) = Some b"
    and ne: "a_id c \<noteq> b_id c"
    and cin: "a_id c \<in> trk_id ` set tracks" "b_id c \<in> trk_id ` set tracks"
    by blast
  have "length (filter (\<lambda>d. conflictKey d = conflictKey c) ?sep)
          \<le> length (filter (pairIds (a_id c) (b_id c)) ?sep)"
  proof (rule length_filter_mono)
    fix d assume d: "d \<in> set ?sep" and k: "conflictKey d = conflictKey c"
    from detect_mem [OF d] have "a_id d \<in> trk_id ` set tracks" "b_id d \<in> trk_id ` set tracks"
      by blast+
    with cin nb k show "pairIds (a_id c) (b_id c) d"
      by (intro conflictKey_pair) auto
  qed
  also have "\<dots> \<le> 1"
    by (rule detect_pair_le1 [OF a b ne])
  finally show "length (filter (\<lambda>d. conflictKey d = conflictKey c) ?sep) \<le> 1" .
qed

lemma detect_sorted: "sorted (map first_breach_s (detectSeparationConflicts tracks H V))"
  by (simp add: detectSeparationConflicts_def Let_def)

lemma update_fresh: "k \<notin> fst ` set al \<Longrightarrow> AList.update k v al = al @ [(k, v)]"
  by (induction al) auto

lemma fold_update_fresh:
  "distinct (map f xs) \<Longrightarrow> f ` set xs \<inter> fst ` set m = {}
     \<Longrightarrow> fold (\<lambda>c m. AList.update (f c) c m) xs m = m @ map (\<lambda>c. (f c, c)) xs"
proof (induction xs arbitrary: m)
  case Nil
  then show ?case by simp
next
  case (Cons x xs)
  from Cons.prems have fresh: "f x \<notin> fst ` set m" by auto
  have "f ` set xs \<inter> fst ` set (m @ [(f x, x)]) = {}"
    using Cons.prems by auto
  with Cons.IH [of "m @ [(f x, x)]"] Cons.prems(1) show ?case
    by (simp add: update_fresh [OF fresh])
qed

lemma fold_update_values:
  "snd ` set (fold (\<lambda>c m. AList.update (f c) c m) xs m) \<subseteq> snd ` set m \<union> set xs"
proof (induction xs arbitrary: m)
  case Nil
  then show ?case by simp
next
  case (Cons x xs)
  have "snd ` set (AList.update (f x) x m) \<subseteq> insert x (snd ` set m)"
    using set_update_subset [of "f x" x m] by auto
  with Cons.IH [of "AList.update (f x) x m"] show ?case by auto
qed

lemma visibleConflicts_alt:
  "visibleConflicts s =
     map snd (fold (\<lambda>c m. AList.update (conflictKey c) c m)
                   (concat (map alertConflict (visibleAlerts s))) [])"
  unfolding visibleConflicts_def Let_def alertConflict_def [abs_def] ..

lemma alertConflict_sep: "alertConflict (sepAlert t c) = [c]"
  by (simp add: alertConflict_def sepAlert_def)

lemma alertConflict_other: "al_type al \<noteq> separation \<Longrightarrow> alertConflict al = []"
  by (simp add: alertConflict_def split: option.splits)

lemma raw_sep:
  "concat (map alertConflict (filter P (map (sepAlert t) cs))) = filter (\<lambda>c. P (sepAlert t c)) cs"
  by (induction cs) (simp_all add: alertConflict_sep)

lemma raw_other:
  "(\<And>al. al \<in> set als \<Longrightarrow> al_type al \<noteq> separation) \<Longrightarrow> concat (map alertConflict (filter P als)) = []"
  by (induction als) (simp_all add: alertConflict_other)

lemma recompute_selected:
  "st_selected (recompute now proj g ac timeMs s)
     = keepSelection (detectSeparationConflicts (projectedOf (proj ac)) 5 1000) (st_selected s)"
  by (simp add: recompute_def Let_def updateHistoryFromAircraft_def projectedOf_def)

lemma recompute_filters:
  "st_enabledTypes (recompute now proj g ac timeMs s) = st_enabledTypes s"
  "st_minSeverity (recompute now proj g ac timeMs s) = st_minSeverity s"
  by (simp_all add: recompute_def Let_def updateHistoryFromAircraft_def)

lemma recompute_raw:
  "concat (map alertConflict (visibleAlerts (recompute now proj g ac timeMs s)))
     = filter (sepVisible s) (detectSeparationConflicts (projectedOf (proj ac)) 5 1000)"
proof -
  let ?P = "\<lambda>a. st_enabledTypes s (al_type a) \<and> severityRank (st_minSeverity s) \<le> severityRank (al_severity a)"
  have wx: "concat (map alertConflict (filter ?P (fst (buildWeatherAlerts g ac timeMs (st_weatherTimeISO s))))) = []"
    by (rule raw_other) (auto dest: buildWeatherAlerts_mem)
  have loc: "concat (map alertConflict (filter ?P (buildLocalAlerts ac timeMs))) = []"
    by (rule raw_other) (auto dest: buildLocalAlerts_mem)
  have sp: "(\<lambda>c. ?P (sepAlert t c)) = sepVisible s" for t
    by (rule ext) (simp add: sepVisible_def sepAlert_def)
  show ?thesis
    unfolding visibleAlerts_def filterAlerts_def Let_def recompute_filters recompute_alerts
    by (simp add: raw_sep wx loc sp projectedOf_def)
qed

lemma visible_subset:
  "set (visibleConflicts (recompute now proj g ac timeMs s))
     \<subseteq> set (detectSeparationConflicts (projectedOf (proj ac)) 5 1000)"
proof -
  have "set (visibleConflicts (recompute now proj g ac timeMs s))
      \<subseteq> set (filter (sepVisible s) (detectSeparationConflicts (projectedOf (proj ac)) 5 1000))"
    unfolding visibleConflicts_alt recompute_raw
    using fold_update_values [of conflictKey "filter (sepVisible s) (detectSeparationConflicts (projectedOf (proj ac)) 5 1000)" "[]"]
    by simp
  then show ?thesis by auto
qed

lemma visible_filter:
  assumes "\<forall>t \<in> set (projectedOf (proj ac)). CHR ''|'' \<notin> set (trk_id t)"
  shows "visibleConflicts (recompute now proj g ac timeMs s)
           = filter (sepVisible s) (detectSeparationConflicts (projectedOf (proj ac)) 5 1000)"
proof -
  have "distinct (map conflictKey (filter (sepVisible s) (detectSeparationConflicts (projectedOf (proj ac)) 5 1000)))"
    using detect_keys_distinct [OF assms, of 5 1000] by (simp add: distinct_map_filter)
  then show ?thesis
    unfolding visibleConflicts_alt recompute_raw
    by (subst fold_update_fresh) (simp_all add: comp_def)
qed

lemma selectionEffect_selected:
  "st_selected (selectionEffect s) =
     (case st_selected s of
        None \<Rightarrow> (case visibleConflicts s of [] \<Rightarrow> None | v # _ \<Rightarrow> Some v)
      | Some sel \<Rightarrow>
          if list_ex (\<lambda>c. sameConflict c sel) (visibleConflicts s) then Some sel
          else (case visibleConflicts s of [] \<Rightarrow> None | v # _ \<Rightarrow> Some v))"
  by (simp add: selectionEffect_def Let_def split: option.splits list.splits)

lemma selectionEffect_visible: "visibleConflicts (selectionEffect s) = visibleConflicts s"
  by (simp add: selectionEffect_def Let_def visibleConflicts_def visibleAlerts_def
      split: option.splits list.splits)

lemma sorted_hd_min: "sorted (map f xs) \<Longrightarrow> c \<in> set xs \<Longrightarrow> f (hd xs) \<le> f c"
  by (cases xs) auto

lemma fallback_choice:
  assumes dk: "distinct (map conflictKey sep)"
    and nomatch: "\<And>p. prev = Some p \<Longrightarrow> \<not> list_ex (\<lambda>c. sameConflict c p) (filter V sep)"
  shows "(case keepSelection sep prev of
            None \<Rightarrow> (case filter V sep of [] \<Rightarrow> None | v # _ \<Rightarrow> Some v)
          | Some sel \<Rightarrow>
              if list_ex (\<lambda>c. sameConflict c sel) (filter V sep) then Some sel
              else (case filter V sep of [] \<Rightarrow> None | v # _ \<Rightarrow> Some v))
         = (case filter V sep of [] \<Rightarrow> None | v # _ \<Rightarrow> Some v)"
proof (cases sep)
  case Nil
  then show ?thesis by (simp add: keepSelection_def)
next
  case (Cons c0 rest)
  have first: "(if list_ex (\<lambda>c. sameConflict c c0) (filter V sep) then Some c0
                else (case filter V sep of [] \<Rightarrow> None | v # _ \<Rightarrow> Some v))
               = (case filter V sep of [] \<Rightarrow> None | v # _ \<Rightarrow> Some v)"
  proof (cases "list_ex (\<lambda>c. sameConflict c c0) (filter V sep)")
    case False
    then show ?thesis by simp
  next
    case True
    then obtain c where c: "c \<in> set sep" "V c" "conflictKey c = conflictKey c0"
      by (auto simp: list_ex_iff sameConflict_def)
    from dk have "inj_on conflictKey (set sep)" by (simp add: distinct_map)
    moreover have "c0 \<in> set sep" using Cons by simp
    ultimately have "c = c0" using c(1,3) by (meson inj_onD)
    with c Cons True show ?thesis by simp
  qed
  show ?thesis
  proof (cases prev)
    case None
    with Cons first show ?thesis by (simp add: keepSelection_def)
  next
    case (Some p)
    show ?thesis
    proof (cases "list_ex (\<lambda>c. sameConflict c p) sep")
      case True
      with Some Cons have "keepSelection sep prev = Some p" by (simp add: keepSelection_def)
      with nomatch [OF Some] show ?thesis by simp
    next
      case False
      with Some Cons have "keepSelection sep prev = Some c0" by (simp add: keepSelection_def)
      with first show ?thesis by simp
    qed
  qed
qed

text \<open>
  Claim C3. A tick is the recomputation pass followed by the effect that runs on the new
  visible conflicts; no track id contains the separator of the pair key. The visible
  conflicts after the tick are those of the pass. If the conflict selected before the tick
  has the pair key of a visible conflict, it is still the selection after the tick,
  whatever else is visible. Otherwise the selection after the tick is the first visible
  conflict, which has the smallest time to breach of all visible conflicts, or none when
  no conflict is visible.
\<close>

theorem selection_stability:
  assumes "\<forall>t \<in> set (projectedOf (projectTracks ac)). CHR ''|'' \<notin> set (trk_id t)"
  shows "visibleConflicts (tick now projectTracks g ac timeMs s)
           = visibleConflicts (recompute now projectTracks g ac timeMs s)
       \<and> (st_selected s = Some p
            \<and> list_ex (\<lambda>c. sameConflict c p) (visibleConflicts (recompute now projectTracks g ac timeMs s))
          \<longrightarrow> st_selected (tick now projectTracks g ac timeMs s) = Some p)
       \<and> ((\<forall>q. st_selected s = Some q
                \<longrightarrow> \<not> list_ex (\<lambda>c. sameConflict c q) (visibleConflicts (recompute now projectTracks g ac timeMs s)))
          \<longrightarrow> st_selected (tick now projectTracks g ac timeMs s)
                = (case visibleConflicts (recompute now projectTracks g ac timeMs s) of
                     [] \<Rightarrow> None | v # _ \<Rightarrow> Some v)
              \<and> (\<forall>c \<in> set (visibleConflicts (recompute now projectTracks g ac timeMs s)).
                    first_breach_s (hd (visibleConflicts (recompute now projectTracks g ac timeMs s)))
                      \<le> first_breach_s c))"
proof (intro conjI impI)
  let ?r = "recompute now projectTracks g ac timeMs s"
  let ?sep = "detectSeparationConflicts (projectedOf (projectTracks ac)) 5 1000"
  note vf = visible_filter [of projectTracks ac now g timeMs s, OF assms]
  show "visibleConflicts (tick now projectTracks g ac timeMs s) = visibleConflicts ?r"
    by (simp add: tick_def selectionEffect_visible)
  {
    assume h: "st_selected s = Some p \<and> list_ex (\<lambda>c. sameConflict c p) (visibleConflicts ?r)"
    then obtain c where c: "c \<in> set (visibleConflicts ?r)" "sameConflict c p"
      by (auto simp: list_ex_iff)
    with visible_subset [of now projectTracks g ac timeMs s] have cs: "c \<in> set ?sep" by auto
    then have "list_ex (\<lambda>c. sameConflict c p) ?sep" using c(2) by (auto simp: list_ex_iff)
    with cs h have "keepSelection ?sep (st_selected s) = Some p"
      by (cases ?sep) (auto simp: keepSelection_def)
    with h show "st_selected (tick now projectTracks g ac timeMs s) = Some p"
      by (simp add: tick_def selectionEffect_selected recompute_selected)
  }
  {
    assume h: "\<forall>q. st_selected s = Some q \<longrightarrow> \<not> list_ex (\<lambda>c. sameConflict c q) (visibleConflicts ?r)"
    have "(case keepSelection ?sep (st_selected s) of
            None \<Rightarrow> (case filter (sepVisible s) ?sep of [] \<Rightarrow> None | v # _ \<Rightarrow> Some v)
          | Some sel \<Rightarrow>
              if list_ex (\<lambda>c. sameConflict c sel) (filter (sepVisible s) ?sep) then Some sel
              else (case filter (sepVisible s) ?sep of [] \<Rightarrow> None | v # _ \<Rightarrow> Some v))
         = (case filter (sepVisible s) ?sep of [] \<Rightarrow> None | v # _ \<Rightarrow> Some v)"
    proof (rule fallback_choice)
      show "distinct (map conflictKey ?sep)" by (rule detect_keys_distinct [OF assms])
    next
      fix q assume "st_selected s = Some q"
      with h show "\<not> list_ex (\<lambda>c. sameConflict c q) (filter (sepVisible s) ?sep)"
        unfolding vf by blast
    qed
    then show "st_selected (tick now projectTracks g ac timeMs s)
                = (case visibleConflicts ?r of [] \<Rightarrow> None | v # _ \<Rightarrow> Some v)"
      unfolding tick_def selectionEffect_selected recompute_selected vf .
    have "sorted (map first_breach_s (filter (sepVisible s) ?sep))"
      using detect_sorted [of "projectedOf (projectTracks ac)" 5 1000]
      by (simp only: filter_map [symmetric, unfolded comp_def] sorted_map sorted_wrt_filter)
    then show "\<forall>c \<in> set (visibleConflicts ?r).
        first_breach_s (hd (visibleConflicts ?r)) \<le> first_breach_s c"
      unfolding vf by (auto intro: sorted_hd_min)
  }
qed

lemma pairConflict_AB: "pairConflict trackA trackB 5 1000 = [conflictAB]"
  by (simp add: pairConflict_def len_ABC walk_AB steps_AB conflictAB_def ids_ABC)
    (simp add: trackA_def trackB_def exPt_def)

lemma walk_AC: "walkPair trackA trackC 5 1000 2
   = \<lparr>minH = Some 0, minV = Some 2000, minIdx = 1, firstBreachIdx = None\<rparr>"
  by (simp add: walkPair_def walkStep_def walkInit_def belowMin_def Let_def hSep_AC vSep_AC
      numeral_2_eq_2 far_apart)

lemma pairConflict_AC: "pairConflict trackA trackC 5 1000 = []"
  by (simp add: pairConflict_def len_ABC walk_AC)

lemma hSep_BC: "hSep trackB trackC 0 = 0" "hSep trackB trackC (Suc 0) = 0"
  by (simp_all add: hSep_def trackB_def trackC_def exPt_def haversineNm_same)

lemma vSep_BC: "vSep trackB trackC 0 = 0" "vSep trackB trackC (Suc 0) = 0"
  by (simp_all add: vSep_def trackB_def trackC_def exPt_def altOr0_def)

lemma walk_BC: "walkPair trackB trackC 5 1000 2
   = \<lparr>minH = Some 0, minV = Some 0, minIdx = 0, firstBreachIdx = Some 0\<rparr>"
  by (simp add: walkPair_def walkStep_def walkInit_def belowMin_def Let_def hSep_BC vSep_BC
      numeral_2_eq_2)

lemma step_C: "stepSeconds trackC = 60"
  by (simp add: stepSeconds_def stepOffset_def nthOpt_def tsOr0_def trackC_def exPt_def)

lemma pairConflict_BC: "pairConflict trackB trackC 5 1000 = [conflictBC]"
  by (simp add: pairConflict_def len_ABC walk_BC steps_AB step_C conflictBC_def ids_ABC)
    (simp add: trackB_def trackC_def exPt_def)

lemma detect_ABC: "detectSeparationConflicts [trackA, trackB, trackC] 5 1000 = [conflictBC, conflictAB]"
  by (simp add: detectSeparationConflicts_def map_ABC pairConflict_AB pairConflict_AC pairConflict_BC)
    (simp add: conflictAB_def conflictBC_def)

lemma visible_ABC:
  "st_enabledTypes s separation \<Longrightarrow> st_minSeverity s = info \<Longrightarrow>
     visibleConflicts (recompute 0 projectABC noRadar [] 0 s) = [conflictBC, conflictAB]"
proof -
  assume e: "st_enabledTypes s separation" "st_minSeverity s = info"
  have nb: "\<forall>t \<in> set (projectedOf (projectABC [])). CHR ''|'' \<notin> set (trk_id t)"
    by (simp add: projectedOf_def projectABC_def ids_ABC)
  from e show ?thesis
    unfolding visible_filter [of projectABC "[]" 0 noRadar 0 s, OF nb]
    by (simp add: projectedOf_def projectABC_def detect_ABC sepVisible_def)
qed

theorem selection_stability_witness:
  "st_selected (tick 0 projectABC noRadar [] 0 (initialState\<lparr>st_selected := Some staleAB\<rparr>)) = Some staleAB
   \<and> st_selected (tick 0 projectABC noRadar [] 0 initialState) = Some conflictBC
   \<and> first_breach_s conflictBC < first_breach_s conflictAB"
proof -
  have nb: "\<forall>t \<in> set (projectedOf (projectABC [])). CHR ''|'' \<notin> set (trk_id t)"
    by (simp add: projectedOf_def projectABC_def ids_ABC)
  let ?s1 = "initialState\<lparr>st_selected := Some staleAB\<rparr>"
  have v1: "visibleConflicts (recompute 0 projectABC noRadar [] 0 ?s1) = [conflictBC, conflictAB]"
    by (rule visible_ABC) (simp_all add: initialState_def)
  have v0: "visibleConflicts (recompute 0 projectABC noRadar [] 0 initialState) = [conflictBC, conflictAB]"
    by (rule visible_ABC) (simp_all add: initialState_def)
  have same: "sameConflict conflictAB staleAB"
    by (simp add: sameConflict_def conflictKey_def conflictAB_def staleAB_def)
  have sel1: "st_selected ?s1 = Some staleAB" by simp
  have sel0: "st_selected initialState = None" by (simp add: initialState_def)
  from selection_stability [of projectABC "[]" 0 noRadar 0 ?s1 staleAB, OF nb] sel1 same
  have a: "st_selected (tick 0 projectABC noRadar [] 0 ?s1) = Some staleAB"
    unfolding v1 by simp
  from selection_stability [of projectABC "[]" 0 noRadar 0 initialState staleAB, OF nb] sel0
  have b: "st_selected (tick 0 projectABC noRadar [] 0 initialState) = Some conflictBC"
    unfolding v0 by simp
  have c: "first_breach_s conflictBC < first_breach_s conflictAB"
    by (simp add: conflictAB_def conflictBC_def)
  from a b c show ?thesis by blast
qed

end
